theory Spec2Isabelle
  imports Complex_Main "HOL-Library.AList"
begin

section \<open>Python values used by the monitoring code\<close>

subsection \<open>Floats\<close>

text \<open>
  Prices, thresholds and liquidity figures are Python floats (IEEE-754 doubles). A finite
  double is modelled by the rational number it denotes; comparisons of doubles are exact, so
  \<open><\<close> and \<open>\<le>\<close> on \<open>rat\<close> are the comparisons of the program. Arithmetic is not
  exact: every operation returns the exact result rounded to the nearest double, ties to
  even, with a 53-bit significand (and the fixed quantum \<open>2^-1074\<close> in the subnormal range).
  NaN and the infinities are not modelled; an overflowing result is kept as the (huge)
  rounded rational, which compares with the constants of the program as infinity does.
\<close>

type_synonym float = rat

fun bit_length :: "nat \<Rightarrow> nat" where
  "bit_length n = (if n = 0 then 0 else Suc (bit_length (n div 2)))"

declare bit_length.simps [simp del]

definition pow2 :: "int \<Rightarrow> rat" where
  "pow2 k = (if 0 \<le> k then 2 ^ nat k else 1 / 2 ^ nat (- k))"

text \<open>\<open>ilog2 x\<close> is the binary exponent of a positive \<open>x\<close>: \<open>2^e \<le> x < 2^(e+1)\<close>.\<close>

definition ilog2 :: "rat \<Rightarrow> int" where
  "ilog2 x = (if 1 \<le> x then int (bit_length (nat \<lfloor>x\<rfloor>)) - 1
              else - int (bit_length (nat (\<lceil>1 / x\<rceil> - 1))))"

definition round_half_even :: "rat \<Rightarrow> int" where
  "round_half_even x =
     (let f = \<lfloor>x\<rfloor>; d = x - of_int f
      in if d < 1 / 2 then f else if 1 / 2 < d then f + 1
         else if even f then f else f + 1)"

definition round_double :: "rat \<Rightarrow> float" where
  "round_double x =
     (if x = 0 then 0
      else let q = pow2 (max (ilog2 \<bar>x\<bar> - 52) (- 1074))
           in of_int (round_half_even (x / q)) * q)"

definition fdiv :: "float \<Rightarrow> float \<Rightarrow> float" where
  "fdiv a b = round_double (a / b)"

definition fsub :: "float \<Rightarrow> float \<Rightarrow> float" where
  "fsub a b = round_double (a - b)"

definition fmul :: "float \<Rightarrow> float \<Rightarrow> float" where
  "fmul a b = round_double (a * b)"

subsection \<open>Truthiness and strings\<close>

text \<open>
  \<open>if price_high and ...\<close>: an \<open>Optional[float]\<close> is falsy when it is \<open>None\<close> and when it
  is \<open>0.0\<close>. \<open>if watchlist_name:\<close> and \<open>not user.wallet_address\<close>: an optional string is
  falsy when it is \<open>None\<close> and when it is empty.
\<close>

definition truthy_float :: "float option \<Rightarrow> bool" where
  "truthy_float v = (case v of None \<Rightarrow> False | Some x \<Rightarrow> x \<noteq> 0)"

definition truthy_str :: "string option \<Rightarrow> bool" where
  "truthy_str v = (case v of None \<Rightarrow> False | Some s \<Rightarrow> s \<noteq> [])"

text \<open>\<open>str.lower()\<close>, on ASCII letters.\<close>

definition lower_char :: "char \<Rightarrow> char" where
  "lower_char c =
     (let n = (of_char c :: nat) in if 65 \<le> n \<and> n \<le> 90 then char_of (n + 32) else c)"

definition lower :: "string \<Rightarrow> string" where
  "lower s = map lower_char s"

subsection \<open>Dictionaries\<close>

text \<open>
  A Python \<open>dict\<close> keeps its keys in insertion order, and the loops of the program iterate
  over \<open>items()\<close>; a dictionary is therefore an association list. \<open>d[k] = v\<close> is
  \<open>AList.update k v d\<close> (an existing key keeps its place, a new key goes last),
  \<open>del d[k]\<close> is \<open>AList.delete k d\<close>, \<open>k in d\<close> and \<open>d.get(k)\<close> read \<open>map_of d k\<close>.
\<close>

type_synonym ('k, 'v) dict = "('k \<times> 'v) list"

section \<open>trading/alerts.py\<close>

subsection \<open>Data\<close>

text \<open>An entry of \<open>price_alerts[token_address]\<close>.\<close>

record alert =
  telegram_id :: string
  price_high :: "float option"
  price_low :: "float option"

text \<open>
  A value of \<open>token_data\<close>. It is a dictionary whose keys are written by different
  functions, so each key may be absent.
\<close>

record token_rec =
  price_eth :: "float option"
  price_usd :: "float option"
  eth_liquidity :: "float option"
  token_liquidity :: "float option"

definition empty_rec :: token_rec where
  "empty_rec = \<lparr>price_eth = None, price_usd = None, eth_liquidity = None, token_liquidity = None\<rparr>"

text \<open>A row written by \<open>add_token_to_watchlist\<close>.\<close>

record watchlist_token =
  wt_watchlist_id :: nat
  wt_token_address :: string
  wt_token_symbol :: string
  wt_alert_price_high :: "float option"
  wt_alert_price_low :: "float option"

text \<open>
  The module state: the two in-memory dictionaries, and the watchlist-token table that
  \<open>add_price_alert\<close> appends to.
\<close>

record alert_store =
  price_alerts :: "(string, alert list) dict"
  token_data :: "(string, token_rec) dict"
  watchlist_tokens :: "watchlist_token list"

record user =
  wallet_address :: "string option"
  encrypted_private_key :: "string option"

record watchlist =
  wl_id :: nat
  wl_name :: string

record token_info =
  ti_name :: string
  ti_symbol :: string

text \<open>
  What the two modules read from outside during one call: the user directory and the
  watchlists of the database, the three token queries of \<open>utils/tokens.py\<close>, and the
  address test of the blockchain client. A token query either returns its dictionary or
  raises \<open>ValueError\<close> (\<open>None\<close>).
\<close>

record env =
  get_user_by_telegram_id :: "string \<Rightarrow> user option"
  get_user_watchlists :: "string \<Rightarrow> watchlist list"
  get_token_info :: "string \<Rightarrow> token_info option"
  get_token_price :: "string \<Rightarrow> (float \<times> float) option"
  get_token_liquidity :: "string \<Rightarrow> (float \<times> float) option"
  is_address :: "string \<Rightarrow> bool"

text \<open>
  In the repository \<open>get_token_price\<close> and \<open>get_token_liquidity\<close> are placeholders that
  return the same figures for every token. The functions below take the queries as
  parameters; the placeholders are these two instances.
\<close>

definition mock_get_token_price :: "string \<Rightarrow> (float \<times> float) option" where
  "mock_get_token_price tok = Some (round_double (1 / 1000), 5 / 2)"

definition mock_get_token_liquidity :: "string \<Rightarrow> (float \<times> float) option" where
  "mock_get_token_liquidity tok = Some (10, 10000)"

text \<open>The \<open>"error"\<close> values of the result dictionaries of both modules.\<close>

datatype error =
  User_not_found
  | Watchlist_not_found
  | Alert_not_found
  | Error_adding_price_alert
  | Invalid_wallet_address
  | No_wallet_found
  | Configuration_not_found
  | Error_setting_up_copy_trading
  | Error_updating_copy_trading

text \<open>The \<open>"message"\<close> of a successful \<open>add_price_alert\<close>.\<close>

datatype add_message = Price_alert_updated | Price_alert_added

datatype remove_message = Price_alert_removed

text \<open>
  The dictionaries appended to \<open>triggered_alerts\<close> and \<open>liquidity_alerts\<close>; the constructor
  is the \<open>"type"\<close> key. The formatted \<open>"message"\<close> text is left out.
\<close>

datatype alert_event =
  Price_high_alert string string token_info float float
  | Price_low_alert string string token_info float float
  | Liquidity_change_alert string string token_info float float float

subsection \<open>add\_price\_alert\<close>

text \<open>The first watchlist whose lower-cased name equals the lower-cased argument.\<close>

fun find_watchlist :: "string \<Rightarrow> watchlist list \<Rightarrow> watchlist option" where
  "find_watchlist n [] = None"
| "find_watchlist n (wl # wls) =
     (if lower (wl_name wl) = lower n then Some wl else find_watchlist n wls)"

text \<open>
  The loop \<open>for alert in price_alerts[token_address]\<close>: the first entry of the subscriber
  gets the new thresholds (and the function returns).
\<close>

fun update_alert :: "string \<Rightarrow> float option \<Rightarrow> float option \<Rightarrow> alert list \<Rightarrow> alert list" where
  "update_alert tid ph pl [] = []"
| "update_alert tid ph pl (a # as) =
     (if telegram_id a = tid then a\<lparr>price_high := ph, price_low := pl\<rparr> # as
      else a # update_alert tid ph pl as)"

definition alerts_of :: "alert_store \<Rightarrow> string \<Rightarrow> alert list" where
  "alerts_of st tok = (case map_of (price_alerts st) tok of None \<Rightarrow> [] | Some as \<Rightarrow> as)"

text \<open>
  Lines 88 to 137: the in-memory part, reached with the token information in hand. A new
  entry is appended before the baseline record is fetched, so a failing fetch leaves the
  entry in place and the function reports \<open>Error adding price alert\<close>.
\<close>

definition store_alert ::
  "env \<Rightarrow> string \<Rightarrow> string \<Rightarrow> float option \<Rightarrow> float option \<Rightarrow> alert_store \<Rightarrow>
     (error + add_message) \<times> alert_store" where
  "store_alert env tid tok ph pl st =
     (let as = alerts_of st tok in
      if list_ex (\<lambda>a. telegram_id a = tid) as then
        (Inr Price_alert_updated,
         st\<lparr>price_alerts := AList.update tok (update_alert tid ph pl as) (price_alerts st)\<rparr>)
      else
        let st1 = st\<lparr>price_alerts :=
                     AList.update tok (as @ [\<lparr>telegram_id = tid, price_high = ph, price_low = pl\<rparr>])
                       (price_alerts st)\<rparr>
        in if map_of (token_data st1) tok \<noteq> None then (Inr Price_alert_added, st1)
           else (case get_token_price env tok of
                   None \<Rightarrow> (Inl Error_adding_price_alert, st1)
                 | Some (pe, pu) \<Rightarrow>
                     (case get_token_liquidity env tok of
                        None \<Rightarrow> (Inl Error_adding_price_alert, st1)
                      | Some (el, tq) \<Rightarrow>
                          (Inr Price_alert_added,
                           st1\<lparr>token_data :=
                                 AList.update tok
                                   \<lparr>price_eth = Some pe, price_usd = Some pu,
                                    eth_liquidity = Some el, token_liquidity = Some tq\<rparr>
                                   (token_data st1)\<rparr>))))"

definition add_price_alert ::
  "env \<Rightarrow> string \<Rightarrow> string \<Rightarrow> float option \<Rightarrow> float option \<Rightarrow> string option \<Rightarrow>
     alert_store \<Rightarrow> (error + add_message) \<times> alert_store" where
  "add_price_alert env tid tok ph pl wname st =
     (case get_user_by_telegram_id env tid of
        None \<Rightarrow> (Inl User_not_found, st)
      | Some u \<Rightarrow>
          (case get_token_info env tok of
             None \<Rightarrow> (Inl Error_adding_price_alert, st)
           | Some info \<Rightarrow>
               if truthy_str wname then
                 (case find_watchlist (the wname) (get_user_watchlists env tid) of
                    None \<Rightarrow> (Inl Watchlist_not_found, st)
                  | Some wl \<Rightarrow>
                      store_alert env tid tok ph pl
                        (st\<lparr>watchlist_tokens := watchlist_tokens st @
                              [\<lparr>wt_watchlist_id = wl_id wl, wt_token_address = tok,
                                wt_token_symbol = ti_symbol info,
                                wt_alert_price_high = ph, wt_alert_price_low = pl\<rparr>]\<rparr>))
               else store_alert env tid tok ph pl st))"

subsection \<open>remove\_price\_alert\<close>

text \<open>\<open>price_alerts[token_address].pop(i)\<close> at the first entry of the subscriber.\<close>

fun pop_alert :: "string \<Rightarrow> alert list \<Rightarrow> alert list" where
  "pop_alert tid [] = []"
| "pop_alert tid (a # as) = (if telegram_id a = tid then as else a # pop_alert tid as)"

definition remove_price_alert ::
  "string \<Rightarrow> string \<Rightarrow> alert_store \<Rightarrow> (error + remove_message) \<times> alert_store" where
  "remove_price_alert tid tok st =
     (case map_of (price_alerts st) tok of
        None \<Rightarrow> (Inl Alert_not_found, st)
      | Some as \<Rightarrow>
          if list_ex (\<lambda>a. telegram_id a = tid) as then
            (let as' = pop_alert tid as in
             (Inr Price_alert_removed,
              st\<lparr>price_alerts :=
                    (if as' = [] then AList.delete tok (price_alerts st)
                     else AList.update tok as' (price_alerts st))\<rparr>))
          else (Inl Alert_not_found, st))"

subsection \<open>check\_price\_alerts\<close>

text \<open>
  The two tests of the inner loop. Each calls \<open>get_token_info\<close> only when its condition
  holds; \<open>None\<close> is the exception of that call, which leaves the loop over this token.
\<close>

definition high_crossed :: "alert \<Rightarrow> float \<Rightarrow> float \<Rightarrow> bool" where
  "high_crossed a prev cur =
     (truthy_float (price_high a) \<and> prev < the (price_high a) \<and> the (price_high a) \<le> cur)"

definition low_crossed :: "alert \<Rightarrow> float \<Rightarrow> float \<Rightarrow> bool" where
  "low_crossed a prev cur =
     (truthy_float (price_low a) \<and> the (price_low a) < prev \<and> cur \<le> the (price_low a))"

definition check_high ::
  "env \<Rightarrow> string \<Rightarrow> float \<Rightarrow> float \<Rightarrow> alert \<Rightarrow> alert_event list option" where
  "check_high env tok prev cur a =
     (if high_crossed a prev cur then
        (case get_token_info env tok of
           None \<Rightarrow> None
         | Some info \<Rightarrow>
             Some [Price_high_alert (telegram_id a) tok info (the (price_high a)) cur])
      else Some [])"

definition check_low ::
  "env \<Rightarrow> string \<Rightarrow> float \<Rightarrow> float \<Rightarrow> alert \<Rightarrow> alert_event list option" where
  "check_low env tok prev cur a =
     (if low_crossed a prev cur then
        (case get_token_info env tok of
           None \<Rightarrow> None
         | Some info \<Rightarrow>
             Some [Price_low_alert (telegram_id a) tok info (the (price_low a)) cur])
      else Some [])"

text \<open>
  \<open>for alert in alerts\<close>. The events appended before an exception stay in
  \<open>triggered_alerts\<close>; the remaining entries of the token are not looked at.
\<close>

fun check_alerts ::
  "env \<Rightarrow> string \<Rightarrow> float \<Rightarrow> float \<Rightarrow> alert list \<Rightarrow> alert_event list" where
  "check_alerts env tok prev cur [] = []"
| "check_alerts env tok prev cur (a # as) =
     (case check_high env tok prev cur a of
        None \<Rightarrow> []
      | Some hs \<Rightarrow>
          hs @ (case check_low env tok prev cur a of
                  None \<Rightarrow> []
                | Some ls \<Rightarrow> ls @ check_alerts env tok prev cur as))"

text \<open>
  The body of \<open>for token_address, alerts in price_alerts.items()\<close>, with its
  \<open>try ... except\<close>: a failing price query leaves the store as it is and yields nothing.
\<close>

definition previous_price :: "alert_store \<Rightarrow> string \<Rightarrow> float \<Rightarrow> float" where
  "previous_price st tok cur =
     (case map_of (token_data st) tok of
        None \<Rightarrow> cur
      | Some r \<Rightarrow> (case price_eth r of None \<Rightarrow> cur | Some p \<Rightarrow> p))"

definition check_price_token ::
  "env \<Rightarrow> alert_store \<Rightarrow> string \<times> alert list \<Rightarrow> alert_store \<times> alert_event list" where
  "check_price_token env st kv =
     (case get_token_price env (fst kv) of
        None \<Rightarrow> (st, [])
      | Some (cur, usd) \<Rightarrow>
          (let prev = previous_price st (fst kv) cur;
               r = (case map_of (token_data st) (fst kv) of None \<Rightarrow> empty_rec | Some r \<Rightarrow> r);
               st' = st\<lparr>token_data :=
                          AList.update (fst kv) (r\<lparr>price_eth := Some cur, price_usd := Some usd\<rparr>)
                            (token_data st)\<rparr>
           in (st', check_alerts env (fst kv) prev cur (snd kv))))"

fun check_price_loop ::
  "env \<Rightarrow> alert_store \<Rightarrow> (string \<times> alert list) list \<Rightarrow> alert_store \<times> alert_event list" where
  "check_price_loop env st [] = (st, [])"
| "check_price_loop env st (kv # kvs) =
     (let (st1, ev1) = check_price_token env st kv;
          (st2, ev2) = check_price_loop env st1 kvs
      in (st2, ev1 @ ev2))"

definition check_price_alerts :: "env \<Rightarrow> alert_store \<Rightarrow> alert_store \<times> alert_event list" where
  "check_price_alerts env st = check_price_loop env st (price_alerts st)"

subsection \<open>check\_liquidity\_changes\<close>

text \<open>
  \<open>((current / previous) - 1) * 100\<close> in double arithmetic, guarded by \<open>previous > 0\<close>.
\<close>

definition change_percent :: "float \<Rightarrow> float \<Rightarrow> float" where
  "change_percent prev cur = (if 0 < prev then fmul (fsub (fdiv cur prev) 1) 100 else 0)"

text \<open>
  \<open>users\<close> is a Python set of the subscribers of the token; its iteration order is not
  fixed by the language, the order of first occurrence stands for it here.
\<close>

definition users_of :: "alert_store \<Rightarrow> string \<Rightarrow> string list" where
  "users_of st tok = remdups (map telegram_id (alerts_of st tok))"

definition check_liquidity_token ::
  "env \<Rightarrow> alert_store \<Rightarrow> string \<times> token_rec \<Rightarrow> alert_store \<times> alert_event list" where
  "check_liquidity_token env st kv =
     (case get_token_liquidity env (fst kv) of
        None \<Rightarrow> (st, [])
      | Some (cur, tq) \<Rightarrow>
          (let prev = (case eth_liquidity (snd kv) of None \<Rightarrow> cur | Some p \<Rightarrow> p);
               st' = st\<lparr>token_data :=
                          AList.update (fst kv)
                            ((snd kv)\<lparr>eth_liquidity := Some cur, token_liquidity := Some tq\<rparr>)
                            (token_data st)\<rparr>;
               cp = change_percent prev cur
           in if 20 \<le> \<bar>cp\<bar> then
                (case get_token_info env (fst kv) of
                   None \<Rightarrow> (st', [])
                 | Some info \<Rightarrow>
                     (st', map (\<lambda>u. Liquidity_change_alert u (fst kv) info prev cur cp)
                             (users_of st (fst kv))))
              else (st', [])))"

fun check_liquidity_loop ::
  "env \<Rightarrow> alert_store \<Rightarrow> (string \<times> token_rec) list \<Rightarrow> alert_store \<times> alert_event list" where
  "check_liquidity_loop env st [] = (st, [])"
| "check_liquidity_loop env st (kv # kvs) =
     (let (st1, ev1) = check_liquidity_token env st kv;
          (st2, ev2) = check_liquidity_loop env st1 kvs
      in (st2, ev1 @ ev2))"

definition check_liquidity_changes ::
  "env \<Rightarrow> alert_store \<Rightarrow> alert_store \<times> alert_event list" where
  "check_liquidity_changes env st = check_liquidity_loop env st (token_data st)"

subsection \<open>start\_alert\_monitoring\<close>


section \<open>trading/copytrade.py\<close>

subsection \<open>Data\<close>

text \<open>A row of the table \<open>copy_trade_configs\<close>; the owner is kept by its Telegram id.\<close>

record copy_trade_config =
  cfg_id :: nat
  cfg_telegram_id :: string
  cfg_target_wallet :: string
  cfg_slippage_guard :: float
  cfg_active :: bool
  cfg_sandbox_mode :: bool
  cfg_max_eth_per_trade :: float

text \<open>
  An entry of \<open>monitored_wallets[target_wallet]\<close>. The key \<open>"active"\<close> is absent until
  an update with \<open>active=True\<close> writes it.
\<close>

record user_config =
  uc_telegram_id :: string
  config_id :: nat
  slippage_guard :: float
  max_eth_per_trade :: float
  sandbox_mode :: bool
  active :: "bool option"

text \<open>The keys of a transaction dictionary that \<open>process_transaction\<close> reads.\<close>

record transaction =
  tx_hash :: string
  tx_from :: string
  tx_to :: string
  tx_value :: int

text \<open>
  The module state: the two in-memory collections, and the configuration table of the
  database, which \<open>setup_copy_trading\<close> and \<open>update_copy_trading\<close> write.
\<close>

record copytrade_state =
  monitored_wallets :: "(string, user_config list) dict"
  processed_transactions :: "string set"
  copy_trade_configs :: "copy_trade_config list"

text \<open>The state of a freshly started process over an existing database table.\<close>

definition start_state :: "copy_trade_config list \<Rightarrow> copytrade_state" where
  "start_state cs = \<lparr>monitored_wallets = [], processed_transactions = {}, copy_trade_configs = cs\<rparr>"

text \<open>
  \<open>process_transaction\<close> does not execute a trade: for every entry that passes the wallet
  test it reaches the line that logs \<open>Would copy trade for user ...\<close>. That step is the
  mirror intent; it is recorded as the entry together with the transaction hash.
\<close>

type_synonym mirror_intent = "user_config \<times> string"

subsection \<open>Database operations (database/operations.py)\<close>

text \<open>The integer primary key of a new row is one more than the largest key in the table.\<close>

definition next_config_id :: "copy_trade_config list \<Rightarrow> nat" where
  "next_config_id cs = Suc (fold max (map cfg_id cs) 0)"

definition create_copy_trade_config ::
  "env \<Rightarrow> string \<Rightarrow> string \<Rightarrow> float \<Rightarrow> bool \<Rightarrow> bool \<Rightarrow> float \<Rightarrow> copy_trade_config list \<Rightarrow>
     copy_trade_config option \<times> copy_trade_config list" where
  "create_copy_trade_config env tid target sg act sb me cs =
     (case get_user_by_telegram_id env tid of
        None \<Rightarrow> (None, cs)
      | Some u \<Rightarrow>
          (let c = \<lparr>cfg_id = next_config_id cs, cfg_telegram_id = tid, cfg_target_wallet = target,
                    cfg_slippage_guard = sg, cfg_active = act, cfg_sandbox_mode = sb,
                    cfg_max_eth_per_trade = me\<rparr>
           in (Some c, cs @ [c])))"

definition set_row ::
  "bool option \<Rightarrow> float option \<Rightarrow> bool option \<Rightarrow> float option \<Rightarrow> copy_trade_config \<Rightarrow>
     copy_trade_config" where
  "set_row act sg sb me c =
     c\<lparr>cfg_active := (case act of None \<Rightarrow> cfg_active c | Some v \<Rightarrow> v),
       cfg_slippage_guard := (case sg of None \<Rightarrow> cfg_slippage_guard c | Some v \<Rightarrow> v),
       cfg_sandbox_mode := (case sb of None \<Rightarrow> cfg_sandbox_mode c | Some v \<Rightarrow> v),
       cfg_max_eth_per_trade := (case me of None \<Rightarrow> cfg_max_eth_per_trade c | Some v \<Rightarrow> v)\<rparr>"

text \<open>The first row with the given id is updated and returned; \<open>None\<close> when there is none.\<close>

fun update_copy_trade_config ::
  "nat \<Rightarrow> bool option \<Rightarrow> float option \<Rightarrow> bool option \<Rightarrow> float option \<Rightarrow>
     copy_trade_config list \<Rightarrow> copy_trade_config option \<times> copy_trade_config list" where
  "update_copy_trade_config cid act sg sb me [] = (None, [])"
| "update_copy_trade_config cid act sg sb me (c # cs) =
     (if cfg_id c = cid then (Some (set_row act sg sb me c), set_row act sg sb me c # cs)
      else (let (r, cs') = update_copy_trade_config cid act sg sb me cs in (r, c # cs')))"

subsection \<open>setup\_copy\_trading\<close>

definition setup_copy_trading ::
  "env \<Rightarrow> string \<Rightarrow> string \<Rightarrow> float \<Rightarrow> float \<Rightarrow> bool \<Rightarrow> copytrade_state \<Rightarrow>
     (error + copy_trade_config) \<times> copytrade_state" where
  "setup_copy_trading env tid target sg me sb st =
     (if \<not> is_address env target then (Inl Invalid_wallet_address, st)
      else
        (case get_user_by_telegram_id env tid of
           None \<Rightarrow> (Inl No_wallet_found, st)
         | Some u \<Rightarrow>
             if \<not> truthy_str (wallet_address u) then (Inl No_wallet_found, st)
             else
               (case create_copy_trade_config env tid target sg True sb me (copy_trade_configs st) of
                  (None, cs) \<Rightarrow> (Inl Error_setting_up_copy_trading, st\<lparr>copy_trade_configs := cs\<rparr>)
                | (Some c, cs) \<Rightarrow>
                    (Inr c,
                     st\<lparr>copy_trade_configs := cs,
                        monitored_wallets :=
                          AList.update target
                            ((case map_of (monitored_wallets st) target of None \<Rightarrow> [] | Some ucs \<Rightarrow> ucs)
                             @ [\<lparr>uc_telegram_id = tid, config_id = cfg_id c, slippage_guard = sg,
                                 max_eth_per_trade = me, sandbox_mode = sb, active = None\<rparr>])
                            (monitored_wallets st)\<rparr>))))"

subsection \<open>update\_copy\_trading\<close>

definition set_entry ::
  "bool option \<Rightarrow> float option \<Rightarrow> bool option \<Rightarrow> float option \<Rightarrow> user_config \<Rightarrow> user_config" where
  "set_entry act sg sb me uc =
     uc\<lparr>active := (if act = Some True then Some True else active uc),
        slippage_guard := (case sg of None \<Rightarrow> slippage_guard uc | Some v \<Rightarrow> v),
        sandbox_mode := (case sb of None \<Rightarrow> sandbox_mode uc | Some v \<Rightarrow> v),
        max_eth_per_trade := (case me of None \<Rightarrow> max_eth_per_trade uc | Some v \<Rightarrow> v)\<rparr>"

text \<open>
  The inner loop \<open>for i, cfg in enumerate(configs)\<close>, which stops at the first entry with
  the id: with \<open>active=False\<close> the entry is popped (the later assignments go to the popped
  dictionary and are lost), otherwise its fields are written in place.
\<close>

fun update_configs ::
  "nat \<Rightarrow> bool option \<Rightarrow> float option \<Rightarrow> bool option \<Rightarrow> float option \<Rightarrow> user_config list \<Rightarrow>
     user_config list" where
  "update_configs cid act sg sb me [] = []"
| "update_configs cid act sg sb me (uc # ucs) =
     (if config_id uc = cid then
        (if act = Some False then ucs else set_entry act sg sb me uc # ucs)
      else uc # update_configs cid act sg sb me ucs)"

text \<open>
  The outer loop \<open>for wallet, configs in monitored_wallets.items()\<close>. When the popped entry
  was the last of its wallet, the key is deleted while the dictionary is being iterated:
  the next step of the iteration raises \<open>RuntimeError\<close> (the flag of the result), and the
  wallets after it are not visited.
\<close>

fun update_wallets ::
  "nat \<Rightarrow> bool option \<Rightarrow> float option \<Rightarrow> bool option \<Rightarrow> float option \<Rightarrow>
     (string \<times> user_config list) list \<Rightarrow> (string, user_config list) dict \<Rightarrow>
     bool \<times> (string, user_config list) dict" where
  "update_wallets cid act sg sb me [] d = (False, d)"
| "update_wallets cid act sg sb me (kv # kvs) d =
     (if list_ex (\<lambda>uc. config_id uc = cid) (snd kv) then
        (if act = Some False \<and> update_configs cid act sg sb me (snd kv) = [] then
           (True, AList.delete (fst kv) d)
         else update_wallets cid act sg sb me kvs
                (AList.update (fst kv) (update_configs cid act sg sb me (snd kv)) d))
      else update_wallets cid act sg sb me kvs d)"

definition update_copy_trading ::
  "env \<Rightarrow> string \<Rightarrow> nat \<Rightarrow> bool option \<Rightarrow> float option \<Rightarrow> bool option \<Rightarrow> float option \<Rightarrow>
     copytrade_state \<Rightarrow> (error + copy_trade_config) \<times> copytrade_state" where
  "update_copy_trading env tid cid act sg sb me st =
     (case get_user_by_telegram_id env tid of
        None \<Rightarrow> (Inl User_not_found, st)
      | Some u \<Rightarrow>
          (case update_copy_trade_config cid act sg sb me (copy_trade_configs st) of
             (None, cs) \<Rightarrow> (Inl Configuration_not_found, st)
           | (Some c, cs) \<Rightarrow>
               (let (raised, d) =
                      update_wallets cid act sg sb me (monitored_wallets st) (monitored_wallets st);
                    st' = st\<lparr>copy_trade_configs := cs, monitored_wallets := d\<rparr>
                in if raised then (Inl Error_updating_copy_trading, st') else (Inr c, st'))))"

subsection \<open>process\_transaction\<close>

text \<open>\<open>not user or not user.wallet_address or not user.encrypted_private_key\<close>, negated.\<close>

definition can_trade :: "env \<Rightarrow> string \<Rightarrow> bool" where
  "can_trade env tid =
     (case get_user_by_telegram_id env tid of
        None \<Rightarrow> False
      | Some u \<Rightarrow> truthy_str (wallet_address u) \<and> truthy_str (encrypted_private_key u))"

definition process_transaction ::
  "env \<Rightarrow> transaction \<Rightarrow> copytrade_state \<Rightarrow> copytrade_state \<times> mirror_intent list" where
  "process_transaction env tx st =
     (if tx_hash tx \<in> processed_transactions st then (st, [])
      else
        (let st' = st\<lparr>processed_transactions := insert (tx_hash tx) (processed_transactions st)\<rparr>
         in case map_of (monitored_wallets st') (tx_from tx) of
              None \<Rightarrow> (st', [])
            | Some copying_users \<Rightarrow>
                (st', map (\<lambda>uc. (uc, tx_hash tx))
                        (filter (\<lambda>uc. can_trade env (uc_telegram_id uc)) copying_users))))"

subsection \<open>Runs of the module\<close>

text \<open>
  The calls that reach the module state, each made in the environment of its moment; a run
  collects the mirror intents of its \<open>process_transaction\<close> calls in order.
\<close>

datatype ct_call =
  Setup string string float float bool
  | Update string nat "bool option" "float option" "bool option" "float option"
  | Process transaction

fun ct_step :: "env \<times> ct_call \<Rightarrow> copytrade_state \<Rightarrow> copytrade_state \<times> mirror_intent list" where
  "ct_step (env, Setup tid target sg me sb) st = (snd (setup_copy_trading env tid target sg me sb st), [])"
| "ct_step (env, Update tid cid act sg sb me) st = (snd (update_copy_trading env tid cid act sg sb me st), [])"
| "ct_step (env, Process tx) st = process_transaction env tx st"

fun ct_run :: "(env \<times> ct_call) list \<Rightarrow> copytrade_state \<Rightarrow> copytrade_state \<times> mirror_intent list" where
  "ct_run [] st = (st, [])"
| "ct_run (c # cs) st =
     (let (st1, is1) = ct_step c st; (st2, is2) = ct_run cs st1 in (st2, is1 @ is2))"

section \<open>bot/copytrade\_handlers.py: the two numeric inputs of the setup conversation\<close>

text \<open>
  What \<open>update.message.text\<close> is to the two handlers: blank after \<open>strip()\<close>, a text that
  \<open>float()\<close> rejects with \<open>ValueError\<close>, or the double that \<open>float()\<close> returns.
\<close>

datatype text_input = Blank | Not_a_number | Number float

datatype conv_state = TARGET_WALLET | SLIPPAGE_GUARD | MAX_ETH | SANDBOX_MODE | CONFIRM_SETUP

record user_data =
  mirror_slippage_guard :: "float option"
  mirror_max_eth :: "float option"

definition slippage_guard_input :: "text_input \<Rightarrow> user_data \<Rightarrow> conv_state \<times> user_data" where
  "slippage_guard_input inp ud =
     (case inp of
        Blank \<Rightarrow> (MAX_ETH, ud\<lparr>mirror_slippage_guard := Some 5\<rparr>)
      | Not_a_number \<Rightarrow> (SLIPPAGE_GUARD, ud)
      | Number s \<Rightarrow>
          if s < round_double (1 / 10) \<or> 50 < s then (SLIPPAGE_GUARD, ud)
          else (MAX_ETH, ud\<lparr>mirror_slippage_guard := Some s\<rparr>))"

definition max_eth_input :: "text_input \<Rightarrow> user_data \<Rightarrow> conv_state \<times> user_data" where
  "max_eth_input inp ud =
     (case inp of
        Blank \<Rightarrow> (SANDBOX_MODE, ud\<lparr>mirror_max_eth := Some (round_double (1 / 10))\<rparr>)
      | Not_a_number \<Rightarrow> (MAX_ETH, ud)
      | Number m \<Rightarrow>
          if m \<le> 0 then (MAX_ETH, ud) else (SANDBOX_MODE, ud\<lparr>mirror_max_eth := Some m\<rparr>))"


section \<open>Notions used in the statements\<close>

subsection \<open>Well-formed registries\<close>

text \<open>
  The configuration ids held in the registry, the entries watching one wallet, and the
  condition that every state reached from \<open>start_state\<close> satisfies: the wallets are the
  keys of a dictionary, no id occurs twice in the registry, and every id in it has been
  issued by the table.
\<close>

definition all_ids :: "(string, user_config list) dict \<Rightarrow> nat list" where
  "all_ids d = concat (map (\<lambda>kv. map config_id (snd kv)) d)"

definition entries :: "(string, user_config list) dict \<Rightarrow> string \<Rightarrow> user_config list" where
  "entries d w = (case map_of d w of None \<Rightarrow> [] | Some ucs \<Rightarrow> ucs)"

definition ct_inv :: "copytrade_state \<Rightarrow> bool" where
  "ct_inv st =
     (distinct (map fst (monitored_wallets st)) \<and>
      distinct (all_ids (monitored_wallets st)) \<and>
      (\<forall>i \<in> set (all_ids (monitored_wallets st)). i < next_config_id (copy_trade_configs st)))"

subsection \<open>Example values for the watcher\<close>

definition ex_user :: user where
  "ex_user = \<lparr>wallet_address = Some ''0xU'', encrypted_private_key = Some ''k''\<rparr>"

definition ex_env :: env where
  "ex_env =
     \<lparr>get_user_by_telegram_id = (\<lambda>t. if t = ''u1'' \<or> t = ''u2'' then Some ex_user else None),
      get_user_watchlists = (\<lambda>t. []),
      get_token_info = (\<lambda>t. Some \<lparr>ti_name = ''Token'', ti_symbol = ''TKN''\<rparr>),
      get_token_price = mock_get_token_price,
      get_token_liquidity = mock_get_token_liquidity,
      is_address = (\<lambda>a. take 2 a = ''0x'')\<rparr>"

definition ex_tx :: transaction where
  "ex_tx = \<lparr>tx_hash = ''0xabc'', tx_from = ''0xW1'', tx_to = ''0xR'', tx_value = 1\<rparr>"

definition ex_uc :: "string \<Rightarrow> nat \<Rightarrow> user_config" where
  "ex_uc t n = \<lparr>uc_telegram_id = t, config_id = n, slippage_guard = 5,
               max_eth_per_trade = 1 / 10, sandbox_mode = True, active = None\<rparr>"

definition ex_cfg :: "string \<Rightarrow> nat \<Rightarrow> copy_trade_config" where
  "ex_cfg t n = \<lparr>cfg_id = n, cfg_telegram_id = t, cfg_target_wallet = ''0xW1'',
                cfg_slippage_guard = 5, cfg_active = True, cfg_sandbox_mode = True,
                cfg_max_eth_per_trade = 1 / 10\<rparr>"

text \<open>Two subscribers mirroring the wallet \<open>0xW1\<close>.\<close>

definition ex_ct_state :: copytrade_state where
  "ex_ct_state =
     \<lparr>monitored_wallets = [(''0xW1'', [ex_uc ''u1'' 1, ex_uc ''u2'' 2])],
      processed_transactions = {},
      copy_trade_configs = [ex_cfg ''u1'' 1, ex_cfg ''u2'' 2]\<rparr>"

text \<open>One subscription, then the same transaction seen twice.\<close>

definition ex_calls :: "(env \<times> ct_call) list" where
  "ex_calls =
     [(ex_env, Setup ''u1'' ''0xW1'' 5 (1 / 10) True),
      (ex_env, Process ex_tx),
      (ex_env, Process ex_tx)]"


subsection \<open>Events of a poll\<close>

fun ev_user :: "alert_event \<Rightarrow> string" where
  "ev_user (Price_high_alert u k i t c) = u"
| "ev_user (Price_low_alert u k i t c) = u"
| "ev_user (Liquidity_change_alert u k i p c d) = u"

fun ev_token :: "alert_event \<Rightarrow> string" where
  "ev_token (Price_high_alert u k i t c) = k"
| "ev_token (Price_low_alert u k i t c) = k"
| "ev_token (Liquidity_change_alert u k i p c d) = k"

fun is_high :: "alert_event \<Rightarrow> bool" where
  "is_high (Price_high_alert u k i t c) = True"
| "is_high e = False"

fun is_low :: "alert_event \<Rightarrow> bool" where
  "is_low (Price_low_alert u k i t c) = True"
| "is_low e = False"

fun is_liquidity :: "alert_event \<Rightarrow> bool" where
  "is_liquidity (Liquidity_change_alert u k i p c d) = True"
| "is_liquidity e = False"

text \<open>The number of high (low, liquidity) events of a result for a subscriber and a token.\<close>

definition high_events :: "string \<Rightarrow> string \<Rightarrow> alert_event list \<Rightarrow> nat" where
  "high_events tid tok evs = length (filter (\<lambda>e. is_high e \<and> ev_user e = tid \<and> ev_token e = tok) evs)"

definition low_events :: "string \<Rightarrow> string \<Rightarrow> alert_event list \<Rightarrow> nat" where
  "low_events tid tok evs = length (filter (\<lambda>e. is_low e \<and> ev_user e = tid \<and> ev_token e = tok) evs)"

definition liquidity_events :: "string \<Rightarrow> string \<Rightarrow> alert_event list \<Rightarrow> nat" where
  "liquidity_events tid tok evs =
     length (filter (\<lambda>e. is_liquidity e \<and> ev_user e = tid \<and> ev_token e = tok) evs)"

subsection \<open>Well-formed stores\<close>

text \<open>
  \<open>price_alerts\<close> is a dictionary, and a subscriber has at most one entry per token. The
  empty store has the property and \<open>add_price_alert\<close> and \<open>remove_price_alert\<close> keep it.
\<close>

definition alerts_inv :: "alert_store \<Rightarrow> bool" where
  "alerts_inv st =
     (distinct (map fst (price_alerts st)) \<and>
      (\<forall>kv \<in> set (price_alerts st). distinct (map telegram_id (snd kv))))"

definition empty_store :: alert_store where
  "empty_store = \<lparr>price_alerts = [], token_data = [], watchlist_tokens = []\<rparr>"


subsection \<open>Example values for the alert engine\<close>

definition ex_info :: token_info where
  "ex_info = \<lparr>ti_name = ''Token'', ti_symbol = ''TKN''\<rparr>"

text \<open>An environment whose price query answers \<open>p\<close> and whose liquidity query answers \<open>l\<close>.\<close>

definition feed_env :: "float \<Rightarrow> float \<Rightarrow> env" where
  "feed_env p l =
     \<lparr>get_user_by_telegram_id = (\<lambda>t. if t = ''u1'' \<or> t = ''u2'' then Some ex_user else None),
      get_user_watchlists = (\<lambda>t. []),
      get_token_info = (\<lambda>t. Some ex_info),
      get_token_price = (\<lambda>t. Some (p, 2500 * p)),
      get_token_liquidity = (\<lambda>t. Some (l, 10000)),
      is_address = (\<lambda>a. take 2 a = ''0x'')\<rparr>"

text \<open>An environment in which the price query fails for the token \<open>0xT1\<close> only.\<close>

definition failing_env :: env where
  "failing_env =
     (feed_env 3 10)\<lparr>get_token_price := (\<lambda>t. if t = ''0xT1'' then None else Some (3, 7500))\<rparr>"



text \<open>
  One subscriber of \<open>0xT1\<close> with the thresholds 2 and 1/2, last price 1 and ETH liquidity
  10; and the same store with a second token.
\<close>

definition ex_alert :: alert where
  "ex_alert = \<lparr>telegram_id = ''u1'', price_high = Some 2, price_low = Some (1 / 2)\<rparr>"

definition ex_alert2 :: alert where
  "ex_alert2 = \<lparr>telegram_id = ''u2'', price_high = Some 2, price_low = None\<rparr>"

definition ex_rec :: token_rec where
  "ex_rec = \<lparr>price_eth = Some 1, price_usd = Some 2500, eth_liquidity = Some 10,
             token_liquidity = Some 10000\<rparr>"

definition ex_store :: alert_store where
  "ex_store =
     \<lparr>price_alerts = [(''0xT1'', [ex_alert])],
      token_data = [(''0xT1'', ex_rec)],
      watchlist_tokens = []\<rparr>"

definition ex_store2 :: alert_store where
  "ex_store2 =
     \<lparr>price_alerts =
        [(''0xT1'', [ex_alert]),
         (''0xT2'', [ex_alert2])],
      token_data = [(''0xT1'', ex_rec), (''0xT2'', ex_rec)],
      watchlist_tokens = []\<rparr>"

section \<open>Facts about lists and about the evaluation of doubles\<close>

lemma filter_key_le_one:
  "distinct (map f xs) \<Longrightarrow> length (filter (\<lambda>x. f x = a) xs) \<le> 1"
proof (induction xs)
  case Nil
  then show ?case by simp
next
  case (Cons x xs)
  show ?case
  proof (cases "f x = a")
    case True
    with Cons.prems have "a \<notin> f ` set xs" by simp
    then have "\<forall>y \<in> set xs. f y \<noteq> a" by (metis imageI)
    then have "filter (\<lambda>x. f x = a) xs = []" by (simp add: filter_empty_conv)
    with True show ?thesis by simp
  next
    case False
    with Cons show ?thesis by simp
  qed
qed

lemma length_filter_conj_le:
  "length (filter (\<lambda>x. P x \<and> Q x) xs) \<le> length (filter P xs)"
  by (induction xs) auto

lemma floor_rat_numeral: "\<lfloor>numeral a / numeral b :: rat\<rfloor> = numeral a div numeral b"
  by (metis floor_divide_of_int_eq of_int_numeral)

lemma ceiling_rat_numeral: "\<lceil>numeral a / numeral b :: rat\<rceil> = - (- numeral a div numeral b)"
  by (metis ceiling_divide_eq_div of_int_numeral)

lemmas double_eval =
  round_double_def ilog2_def pow2_def round_half_even_def Let_def
  bit_length.simps floor_rat_numeral ceiling_rat_numeral

section \<open>Properties of the alert engine\<close>

subsection \<open>Unregistering\<close>

lemma remove_absent:
  "\<not> list_ex (\<lambda>a. telegram_id a = tid) (alerts_of st tok) \<Longrightarrow>
     remove_price_alert tid tok st = (Inl Alert_not_found, st)"
  by (simp add: remove_price_alert_def alerts_of_def split: option.splits)

lemma remove_present:
  "list_ex (\<lambda>a. telegram_id a = tid) (alerts_of st tok) \<Longrightarrow>
     fst (remove_price_alert tid tok st) = Inr Price_alert_removed \<and>
     alerts_of (snd (remove_price_alert tid tok st)) tok = pop_alert tid (alerts_of st tok)"
  by (auto simp add: remove_price_alert_def alerts_of_def Let_def update_conv' delete_conv'
        split: option.splits)

text \<open>
  Claim C9, as amended. \<open>remove_price_alert\<close> never raises. When the subscriber has no
  entry for the token it returns the error result \<open>Alert not found\<close> (the bot shows it to
  the user as an error) and leaves the store as it was; when there is an entry it returns
  the success result and the entry is removed.
\<close>

theorem unregister_result:
  "(\<not> list_ex (\<lambda>a. telegram_id a = tid) (alerts_of st tok) \<longrightarrow>
      remove_price_alert tid tok st = (Inl Alert_not_found, st)) \<and>
   (list_ex (\<lambda>a. telegram_id a = tid) (alerts_of st tok) \<longrightarrow>
      fst (remove_price_alert tid tok st) = Inr Price_alert_removed \<and>
      alerts_of (snd (remove_price_alert tid tok st)) tok = pop_alert tid (alerts_of st tok))"
  using remove_absent remove_present by blast

theorem unregister_result_witness:
  "\<not> list_ex (\<lambda>a. telegram_id a = ''u2'') (alerts_of ex_store ''0xT1'') \<and>
   remove_price_alert ''u2'' ''0xT1'' ex_store = (Inl Alert_not_found, ex_store) \<and>
   list_ex (\<lambda>a. telegram_id a = ''u1'') (alerts_of ex_store ''0xT1'') \<and>
   fst (remove_price_alert ''u1'' ''0xT1'' ex_store) = Inr Price_alert_removed \<and>
   alerts_of (snd (remove_price_alert ''u1'' ''0xT1'' ex_store)) ''0xT1'' =
     pop_alert ''u1'' (alerts_of ex_store ''0xT1'')"
proof -
  have h1: "\<not> list_ex (\<lambda>a. telegram_id a = ''u2'') (alerts_of ex_store ''0xT1'')"
    by (simp add: alerts_of_def ex_store_def ex_alert_def)
  have h2: "list_ex (\<lambda>a. telegram_id a = ''u1'') (alerts_of ex_store ''0xT1'')"
    by (simp add: alerts_of_def ex_store_def ex_alert_def)
  from unregister_result [of "''u2''" ex_store "''0xT1''"] unregister_result [of "''u1''" ex_store "''0xT1''"]
       h1 h2
  show ?thesis by blast
qed

text \<open>
  The claim as the specification words it, that the missing subscription is answered
  without reporting an error, fails: on the empty store the result is the error value.
\<close>

theorem unregister_reports_error:
  "fst (remove_price_alert ''u1'' ''0xT1'' empty_store) = Inl Alert_not_found"
  by (simp add: remove_price_alert_def empty_store_def)

lemma remove_token_data: "token_data (snd (remove_price_alert tid tok st)) = token_data st"
  by (simp add: remove_price_alert_def Let_def split: option.splits)

lemma pop_alert_single: "telegram_id a = tid \<Longrightarrow> pop_alert tid [a] = []"
  by simp

lemma remove_last:
  assumes "alerts_of st tok = [a]" "telegram_id a = tid"
  shows "map_of (price_alerts (snd (remove_price_alert tid tok st))) tok = None"
proof -
  from assms(1) have "map_of (price_alerts st) tok = Some [a]"
    by (simp add: alerts_of_def split: option.splits)
  with assms(2) show ?thesis
    by (simp add: remove_price_alert_def Let_def delete_conv')
qed

lemma store_alert_keeps_record:
  "map_of (token_data st) tok \<noteq> None \<Longrightarrow>
     token_data (snd (store_alert env tid tok ph pl st)) = token_data st"
  by (simp add: store_alert_def Let_def)

lemma add_keeps_record:
  "map_of (token_data st) tok \<noteq> None \<Longrightarrow>
     token_data (snd (add_price_alert env tid tok ph pl wname st)) = token_data st"
  by (simp add: add_price_alert_def store_alert_keeps_record split: option.splits)

text \<open>
  Claim C6, as amended. \<open>remove_price_alert\<close> never touches \<open>token_data\<close>. Removing the
  last subscription of a token deletes the token's key from \<open>price_alerts\<close> and leaves its
  cached record in place, and a later registration for the token, finding the record, does
  not fetch a new baseline: the record is still the one from before the removal.
\<close>

theorem unregister_keeps_record:
  "token_data (snd (remove_price_alert tid tok st)) = token_data st \<and>
   (alerts_of st tok = [a] \<and> telegram_id a = tid \<longrightarrow>
      map_of (price_alerts (snd (remove_price_alert tid tok st))) tok = None) \<and>
   (map_of (token_data st) tok \<noteq> None \<longrightarrow>
      token_data (snd (add_price_alert env tid tok ph pl wname (snd (remove_price_alert tid tok st))))
        = token_data st)"
  using remove_token_data [of tid tok st] remove_last [of st tok a tid]
        add_keeps_record [of "snd (remove_price_alert tid tok st)" tok env tid ph pl wname]
  by simp

theorem unregister_keeps_record_witness:
  "alerts_of ex_store ''0xT1'' = [ex_alert] \<and> telegram_id ex_alert = ''u1'' \<and>
   map_of (token_data ex_store) ''0xT1'' \<noteq> None \<and>
   token_data (snd (remove_price_alert ''u1'' ''0xT1'' ex_store)) = token_data ex_store \<and>
   map_of (price_alerts (snd (remove_price_alert ''u1'' ''0xT1'' ex_store))) ''0xT1'' = None \<and>
   token_data (snd (add_price_alert (feed_env 3 10) ''u1'' ''0xT1'' (Some 2) None None
                      (snd (remove_price_alert ''u1'' ''0xT1'' ex_store))))
     = token_data ex_store"
proof -
  have h1: "alerts_of ex_store ''0xT1'' = [ex_alert]"
    by (simp add: alerts_of_def ex_store_def)
  have h2: "map_of (token_data ex_store) ''0xT1'' \<noteq> None"
    by (simp add: ex_store_def)
  have h3: "telegram_id ex_alert = ''u1''"
    by (simp add: ex_alert_def)
  from unregister_keeps_record
         [of "''u1''" "''0xT1''" ex_store ex_alert "feed_env 3 10" "Some 2" None None]
       h1 h2 h3
  show ?thesis by simp
qed

text \<open>
  The claim as the specification words it fails: after the only subscription of \<open>0xT1\<close>
  is removed the record with the price 1 is still cached, and a new registration with the
  threshold 2, made when the price is already 3, is reported on the next poll as a crossing
  from 1 to 3.
\<close>

theorem unregister_leaves_stale_record:
  "map_of (token_data (snd (remove_price_alert ''u1'' ''0xT1'' ex_store))) ''0xT1'' = Some ex_rec \<and>
   snd (check_price_alerts (feed_env 3 10)
          (snd (add_price_alert (feed_env 3 10) ''u1'' ''0xT1'' (Some 2) None None
                  (snd (remove_price_alert ''u1'' ''0xT1'' ex_store)))))
     = [Price_high_alert ''u1'' ''0xT1'' ex_info 2 3]"
  by (simp add: remove_price_alert_def add_price_alert_def store_alert_def alerts_of_def
        check_price_alerts_def check_price_token_def previous_price_def check_high_def
        check_low_def high_crossed_def low_crossed_def truthy_float_def truthy_str_def
        ex_store_def ex_alert_def ex_rec_def feed_env_def ex_user_def Let_def)

subsection \<open>A failing price query\<close>

lemma token_failed:
  "get_token_price env tok = None \<Longrightarrow> check_price_token env st (tok, as) = (st, [])"
  by (simp add: check_price_token_def)

lemma token_other_record:
  "fst kv \<noteq> tok \<Longrightarrow>
     map_of (token_data (fst (check_price_token env st kv))) tok = map_of (token_data st) tok"
  by (simp add: check_price_token_def Let_def update_conv' split: option.splits prod.splits)


lemma loop_failed_skipped:
  "get_token_price env tok = None \<Longrightarrow>
     check_price_loop env st kvs = check_price_loop env st (filter (\<lambda>kv. fst kv \<noteq> tok) kvs)"
proof (induction kvs arbitrary: st)
  case Nil
  then show ?case by simp
next
  case (Cons kv kvs)
  show ?case
  proof (cases "fst kv = tok")
    case True
    with Cons.prems token_failed [of env tok st "snd kv"]
    have "check_price_token env st kv = (st, [])" by (cases kv) simp
    with True Cons.IH [OF Cons.prems, of st] show ?thesis by simp
  next
    case False
    with Cons.IH [OF Cons.prems] show ?thesis by simp
  qed
qed

text \<open>
  With the price query failing for \<open>0xT1\<close> only, the price pass still alerts the
  subscriber of the other token.
\<close>

lemma failed_fetch_others_alerted:
  "snd (check_price_alerts failing_env ex_store2) = [Price_high_alert ''u2'' ''0xT2'' ex_info 2 3] \<and>
   map_of (token_data (fst (check_price_alerts failing_env ex_store2))) ''0xT1'' = Some ex_rec"
  by (simp add: check_price_alerts_def check_price_token_def previous_price_def check_high_def
        check_low_def high_crossed_def low_crossed_def truthy_float_def
        ex_store2_def ex_alert_def ex_alert2_def ex_rec_def failing_env_def feed_env_def Let_def)

subsection \<open>Threshold crossings\<close>

lemma high_events_Nil [simp]: "high_events tid tok [] = 0"
  by (simp add: high_events_def)

lemma high_events_append [simp]:
  "high_events tid tok (xs @ ys) = high_events tid tok xs + high_events tid tok ys"
  by (simp add: high_events_def)

lemma low_events_Nil [simp]: "low_events tid tok [] = 0"
  by (simp add: low_events_def)

lemma low_events_append [simp]:
  "low_events tid tok (xs @ ys) = low_events tid tok xs + low_events tid tok ys"
  by (simp add: low_events_def)

lemma check_alerts_high_le:
  "high_events tid tok (check_alerts env tok prev cur as)
     \<le> length (filter (\<lambda>a. telegram_id a = tid \<and> high_crossed a prev cur) as)"
  by (induction as)
     (auto simp add: check_high_def check_low_def high_events_def split: option.splits)

lemma check_alerts_high_eq:
  "get_token_info env tok = Some info \<Longrightarrow>
     high_events tid tok (check_alerts env tok prev cur as)
       = length (filter (\<lambda>a. telegram_id a = tid \<and> high_crossed a prev cur) as)"
  by (induction as)
     (auto simp add: check_high_def check_low_def high_events_def split: option.splits)

lemma check_alerts_low_eq:
  "get_token_info env tok = Some info \<Longrightarrow>
     low_events tid tok (check_alerts env tok prev cur as)
       = length (filter (\<lambda>a. telegram_id a = tid \<and> low_crossed a prev cur) as)"
  by (induction as)
     (auto simp add: check_high_def check_low_def low_events_def split: option.splits)

lemma check_alerts_token:
  "e \<in> set (check_alerts env tok prev cur as) \<Longrightarrow> ev_token e = tok"
  by (induction as)
     (auto simp add: check_high_def check_low_def split: option.splits if_splits)

lemma token_events_token:
  "e \<in> set (snd (check_price_token env st kv)) \<Longrightarrow> ev_token e = fst kv"
  by (auto simp add: check_price_token_def Let_def split: option.splits prod.splits
        dest: check_alerts_token)

lemma other_token_high: "fst kv \<noteq> tok \<Longrightarrow> high_events tid tok (snd (check_price_token env st kv)) = 0"
  by (auto simp add: high_events_def filter_empty_conv dest: token_events_token)

lemma other_token_low: "fst kv \<noteq> tok \<Longrightarrow> low_events tid tok (snd (check_price_token env st kv)) = 0"
  by (auto simp add: low_events_def filter_empty_conv dest: token_events_token)

lemma one_entry:
  "distinct (map telegram_id as) \<Longrightarrow> a \<in> set as \<Longrightarrow>
     length (filter (\<lambda>b. telegram_id b = telegram_id a \<and> P b) as) = (if P a then 1 else 0)"
proof (induction as)
  case Nil
  then show ?case by simp
next
  case (Cons b bs)
  show ?case
  proof (cases "b = a")
    case True
    with Cons.prems have "telegram_id a \<notin> telegram_id ` set bs" by simp
    then have "\<forall>x \<in> set bs. telegram_id x \<noteq> telegram_id a" by (metis imageI)
    then have "filter (\<lambda>b. telegram_id b = telegram_id a \<and> P b) bs = []"
      by (simp add: filter_empty_conv)
    with True show ?thesis by simp
  next
    case False
    with Cons.prems have a: "a \<in> set bs" and "telegram_id b \<notin> telegram_id ` set bs" by simp_all
    then have "telegram_id b \<noteq> telegram_id a" by (metis imageI)
    with Cons.IH a Cons.prems(1) show ?thesis by simp
  qed
qed

lemma loop_absent:
  "tok \<notin> fst ` set kvs \<Longrightarrow>
     high_events tid tok (snd (check_price_loop env st kvs)) = 0 \<and>
     low_events tid tok (snd (check_price_loop env st kvs)) = 0 \<and>
     map_of (token_data (fst (check_price_loop env st kvs))) tok = map_of (token_data st) tok"
proof (induction kvs arbitrary: st)
  case Nil
  then show ?case by simp
next
  case (Cons kv kvs)
  from Cons.prems have ne: "fst kv \<noteq> tok" and rest: "tok \<notin> fst ` set kvs" by auto
  from Cons.IH [OF rest, of "fst (check_price_token env st kv)"]
       other_token_high [OF ne] other_token_low [OF ne] token_other_record [OF ne]
  show ?case by (simp add: split_beta)
qed

lemma token_polled:
  "get_token_price env tok = Some (cur, usd) \<Longrightarrow>
     snd (check_price_token env st (tok, as)) = check_alerts env tok (previous_price st tok cur) cur as \<and>
     previous_price (fst (check_price_token env st (tok, as))) tok x = cur"
  by (simp add: check_price_token_def Let_def previous_price_def update_conv')

lemma previous_price_cong:
  "map_of (token_data st') tok = map_of (token_data st) tok \<Longrightarrow>
     previous_price st' tok x = previous_price st tok x"
  by (simp add: previous_price_def)

lemma loop_present:
  assumes "distinct (map fst kvs)" "(tok, as) \<in> set kvs" "get_token_price env tok = Some (cur, usd)"
  shows "high_events tid tok (snd (check_price_loop env st kvs))
           = high_events tid tok (check_alerts env tok (previous_price st tok cur) cur as) \<and>
         low_events tid tok (snd (check_price_loop env st kvs))
           = low_events tid tok (check_alerts env tok (previous_price st tok cur) cur as) \<and>
         previous_price (fst (check_price_loop env st kvs)) tok x = cur"
  using assms(1,2)
proof (induction kvs arbitrary: st)
  case Nil
  then show ?case by simp
next
  case (Cons kv kvs)
  let ?st1 = "fst (check_price_token env st kv)"
  show ?case
  proof (cases "fst kv = tok")
    case True
    with Cons.prems have notin: "tok \<notin> fst ` set kvs" by auto
    with Cons.prems True have kv: "kv = (tok, as)" by (cases kv) force
    note tp = token_polled [OF assms(3), of st as]
    note la = loop_absent [OF notin, of tid env ?st1]
    from la have "map_of (token_data (fst (check_price_loop env ?st1 kvs))) tok = map_of (token_data ?st1) tok"
      by simp
    then have "previous_price (fst (check_price_loop env ?st1 kvs)) tok x = previous_price ?st1 tok x"
      by (rule previous_price_cong)
    with tp la kv show ?thesis by (simp add: split_beta)
  next
    case False
    with Cons.prems have d: "distinct (map fst kvs)" and m: "(tok, as) \<in> set kvs" by auto
    have "previous_price ?st1 tok cur = previous_price st tok cur"
      using token_other_record [OF False] by (rule previous_price_cong)
    with Cons.IH [OF d m, of ?st1] other_token_high [OF False] other_token_low [OF False]
    show ?thesis by (simp add: split_beta)
  qed
qed

lemma loop_price_alerts: "price_alerts (fst (check_price_loop env st kvs)) = price_alerts st"
proof (induction kvs arbitrary: st)
  case Nil
  then show ?case by simp
next
  case (Cons kv kvs)
  have "price_alerts (fst (check_price_token env st kv)) = price_alerts st"
    by (simp add: check_price_token_def Let_def split: option.splits prod.splits)
  with Cons.IH [of "fst (check_price_token env st kv)"] show ?case by (simp add: split_beta)
qed

lemma poll_price_alerts: "price_alerts (fst (check_price_alerts env st)) = price_alerts st"
  by (simp add: check_price_alerts_def loop_price_alerts)

lemma poll_inv: "alerts_inv st \<Longrightarrow> alerts_inv (fst (check_price_alerts env st))"
  by (simp add: alerts_inv_def poll_price_alerts)

lemma subscribed:
  assumes "alerts_inv st" "map_of (price_alerts st) tok = Some as"
  shows "distinct (map fst (price_alerts st))" "(tok, as) \<in> set (price_alerts st)"
    "distinct (map telegram_id as)"
proof -
  show d: "distinct (map fst (price_alerts st))" using assms(1) by (simp add: alerts_inv_def)
  show m: "(tok, as) \<in> set (price_alerts st)" using assms(2) by (rule map_of_SomeD)
  with assms(1) show "distinct (map telegram_id as)" by (auto simp add: alerts_inv_def)
qed

lemma poll_counts:
  assumes "alerts_inv st" "map_of (price_alerts st) tok = Some as" "a \<in> set as"
    and "get_token_price env tok = Some (cur, usd)"
  shows "high_events (telegram_id a) tok (snd (check_price_alerts env st))
           \<le> (if high_crossed a (previous_price st tok cur) cur then 1 else 0)"
    and "get_token_info env tok \<noteq> None \<Longrightarrow>
           high_events (telegram_id a) tok (snd (check_price_alerts env st))
             = (if high_crossed a (previous_price st tok cur) cur then 1 else 0)"
    and "get_token_info env tok \<noteq> None \<Longrightarrow>
           low_events (telegram_id a) tok (snd (check_price_alerts env st))
             = (if low_crossed a (previous_price st tok cur) cur then 1 else 0)"
    and "previous_price (fst (check_price_alerts env st)) tok x = cur"
proof -
  note s = subscribed [OF assms(1,2)]
  note lp = loop_present [OF s(1,2) assms(4), of "telegram_id a" st x]
  note one = one_entry [OF s(3) assms(3)]
  show "high_events (telegram_id a) tok (snd (check_price_alerts env st))
           \<le> (if high_crossed a (previous_price st tok cur) cur then 1 else 0)"
    using lp check_alerts_high_le [of "telegram_id a" tok env "previous_price st tok cur" cur as]
          one [of "\<lambda>b. high_crossed b (previous_price st tok cur) cur"]
    by (simp add: check_price_alerts_def)
  show "previous_price (fst (check_price_alerts env st)) tok x = cur"
    using lp by (simp add: check_price_alerts_def)
  {
    assume "get_token_info env tok \<noteq> None"
    then obtain info where i: "get_token_info env tok = Some info" by auto
    show "high_events (telegram_id a) tok (snd (check_price_alerts env st))
             = (if high_crossed a (previous_price st tok cur) cur then 1 else 0)"
      using lp check_alerts_high_eq [OF i, of "telegram_id a" "previous_price st tok cur" cur as]
            one [of "\<lambda>b. high_crossed b (previous_price st tok cur) cur"]
      by (simp add: check_price_alerts_def)
    show "low_events (telegram_id a) tok (snd (check_price_alerts env st))
             = (if low_crossed a (previous_price st tok cur) cur then 1 else 0)"
      using lp check_alerts_low_eq [OF i, of "telegram_id a" "previous_price st tok cur" cur as]
            one [of "\<lambda>b. low_crossed b (previous_price st tok cur) cur"]
      by (simp add: check_price_alerts_def)
  }
qed

lemma recorded_price:
  "map_of (token_data st) tok = Some r \<Longrightarrow> price_eth r = Some prev \<Longrightarrow>
     previous_price st tok cur = prev"
  by (simp add: previous_price_def)

text \<open>
  Claim C1. Threshold crossings are edge-triggered. Take a well-formed store, a token and
  one of its subscribers. In a poll in which the queries for the token succeed and for which
  the store holds a previous price, the subscriber gets exactly one high event if its high
  threshold \<open>T\<close> is set (\<open>price_high and ...\<close> takes \<open>None\<close> and \<open>0.0\<close> for unset) and
  \<open>prev < T \<le> cur\<close>, and none otherwise; and exactly one low event if its low threshold
  \<open>L\<close> is set and \<open>L < prev\<close> and \<open>cur \<le> L\<close>, and none otherwise. Hence three
  successive polls with prices \<open>p1 < T \<le> p2\<close> and any \<open>p3\<close>, of which \<open>T - 1, T, T + 1\<close>
  is the instance of the specification, give no high event, then exactly one, then none.
\<close>

theorem threshold_crossing_edge_triggered:
  assumes inv: "alerts_inv st"
    and sub: "map_of (price_alerts st) tok = Some as" "a \<in> set as"
  shows "(get_token_price env tok = Some (cur, usd) \<and> get_token_info env tok \<noteq> None \<and>
          map_of (token_data st) tok = Some r \<and> price_eth r = Some prev \<longrightarrow>
            (price_high a = Some T \<and> T \<noteq> 0 \<longrightarrow>
               high_events (telegram_id a) tok (snd (check_price_alerts env st))
                 = (if prev < T \<and> T \<le> cur then 1 else 0)) \<and>
            (price_low a = Some L \<and> L \<noteq> 0 \<longrightarrow>
               low_events (telegram_id a) tok (snd (check_price_alerts env st))
                 = (if L < prev \<and> cur \<le> L then 1 else 0))) \<and>
         (price_high a = Some T \<and> T \<noteq> 0 \<and> p1 < T \<and> T \<le> p2 \<and>
          get_token_price e1 tok = Some (p1, u1) \<and>
          get_token_price e2 tok = Some (p2, u2) \<and> get_token_info e2 tok \<noteq> None \<and>
          get_token_price e3 tok = Some (p3, u3) \<longrightarrow>
            high_events (telegram_id a) tok (snd (check_price_alerts e1 st)) = 0 \<and>
            high_events (telegram_id a) tok
              (snd (check_price_alerts e2 (fst (check_price_alerts e1 st)))) = 1 \<and>
            high_events (telegram_id a) tok
              (snd (check_price_alerts e3
                     (fst (check_price_alerts e2 (fst (check_price_alerts e1 st)))))) = 0)"
proof (intro conjI impI)
  assume h: "get_token_price env tok = Some (cur, usd) \<and> get_token_info env tok \<noteq> None \<and>
          map_of (token_data st) tok = Some r \<and> price_eth r = Some prev"
  then have pp: "previous_price st tok cur = prev" by (simp add: recorded_price)
  from h have price: "get_token_price env tok = Some (cur, usd)"
    and info: "get_token_info env tok \<noteq> None" by simp_all
  {
    assume t: "price_high a = Some T \<and> T \<noteq> 0"
    from poll_counts(2) [OF inv sub price info] pp t
    show "high_events (telegram_id a) tok (snd (check_price_alerts env st))
            = (if prev < T \<and> T \<le> cur then 1 else 0)"
      by (simp add: high_crossed_def truthy_float_def)
  }
  {
    assume l: "price_low a = Some L \<and> L \<noteq> 0"
    from poll_counts(3) [OF inv sub price info] pp l
    show "low_events (telegram_id a) tok (snd (check_price_alerts env st))
            = (if L < prev \<and> cur \<le> L then 1 else 0)"
      by (simp add: low_crossed_def truthy_float_def)
  }
next
  assume h: "price_high a = Some T \<and> T \<noteq> 0 \<and> p1 < T \<and> T \<le> p2 \<and>
          get_token_price e1 tok = Some (p1, u1) \<and>
          get_token_price e2 tok = Some (p2, u2) \<and> get_token_info e2 tok \<noteq> None \<and>
          get_token_price e3 tok = Some (p3, u3)"
  let ?st1 = "fst (check_price_alerts e1 st)"
  let ?st2 = "fst (check_price_alerts e2 ?st1)"
  from h have t: "price_high a = Some T" "T \<noteq> 0" "p1 < T" "T \<le> p2"
    and q1: "get_token_price e1 tok = Some (p1, u1)"
    and q2: "get_token_price e2 tok = Some (p2, u2)" and i2: "get_token_info e2 tok \<noteq> None"
    and q3: "get_token_price e3 tok = Some (p3, u3)" by simp_all
  have inv1: "alerts_inv ?st1" using inv by (rule poll_inv)
  have inv2: "alerts_inv ?st2" using inv1 by (rule poll_inv)
  have sub1: "map_of (price_alerts ?st1) tok = Some as" using sub(1) by (simp add: poll_price_alerts)
  have sub2: "map_of (price_alerts ?st2) tok = Some as" using sub1 by (simp add: poll_price_alerts)
  have prev1: "previous_price ?st1 tok p2 = p1"
    by (rule poll_counts(4) [OF inv sub q1])
  have prev2: "previous_price ?st2 tok p3 = p2"
    by (rule poll_counts(4) [OF inv1 sub1 sub(2) q2])
  {
    from poll_counts(1) [OF inv sub q1] t
    show "high_events (telegram_id a) tok (snd (check_price_alerts e1 st)) = 0"
      by (simp add: high_crossed_def)
  }
  {
    from poll_counts(2) [OF inv1 sub1 sub(2) q2 i2] prev1 t
    show "high_events (telegram_id a) tok (snd (check_price_alerts e2 ?st1)) = 1"
      by (simp add: high_crossed_def truthy_float_def)
  }
  {
    from poll_counts(1) [OF inv2 sub2 sub(2) q3] prev2 t
    show "high_events (telegram_id a) tok (snd (check_price_alerts e3 ?st2)) = 0"
      by (simp add: high_crossed_def)
  }
qed

theorem threshold_crossing_edge_triggered_witness:
  "alerts_inv ex_store \<and> map_of (price_alerts ex_store) ''0xT1'' = Some [ex_alert] \<and>
   price_high ex_alert = Some 2 \<and> price_low ex_alert = Some (1 / 2) \<and>
   map_of (token_data ex_store) ''0xT1'' = Some ex_rec \<and> price_eth ex_rec = Some 1 \<and>
   get_token_price (feed_env 3 10) ''0xT1'' = Some (3, 7500) \<and>
   get_token_info (feed_env 3 10) ''0xT1'' \<noteq> None \<and>
   high_events ''u1'' ''0xT1'' (snd (check_price_alerts (feed_env 3 10) ex_store)) = 1 \<and>
   low_events ''u1'' ''0xT1'' (snd (check_price_alerts (feed_env 3 10) ex_store)) = 0 \<and>
   high_events ''u1'' ''0xT1'' (snd (check_price_alerts (feed_env (1 / 4) 10) ex_store)) = 0 \<and>
   low_events ''u1'' ''0xT1'' (snd (check_price_alerts (feed_env (1 / 4) 10) ex_store)) = 1 \<and>
   high_events ''u1'' ''0xT1'' (snd (check_price_alerts (feed_env 1 10) ex_store)) = 0 \<and>
   high_events ''u1'' ''0xT1''
     (snd (check_price_alerts (feed_env 2 10) (fst (check_price_alerts (feed_env 1 10) ex_store)))) = 1 \<and>
   high_events ''u1'' ''0xT1''
     (snd (check_price_alerts (feed_env 3 10)
            (fst (check_price_alerts (feed_env 2 10)
                   (fst (check_price_alerts (feed_env 1 10) ex_store)))))) = 0"
proof -
  have h1: "alerts_inv ex_store" by (simp add: alerts_inv_def ex_store_def ex_alert_def)
  have h2: "map_of (price_alerts ex_store) ''0xT1'' = Some [ex_alert]" by (simp add: ex_store_def)
  have h3: "ex_alert \<in> set [ex_alert]" by simp
  have a: "price_high ex_alert = Some 2" "price_low ex_alert = Some (1 / 2)"
    "telegram_id ex_alert = ''u1''"
    by (simp_all add: ex_alert_def)
  have q: "get_token_price (feed_env 3 10) ''0xT1'' = Some (3, 7500)"
     "get_token_price (feed_env 2 10) ''0xT1'' = Some (2, 5000)"
     "get_token_price (feed_env 1 10) ''0xT1'' = Some (1, 2500)"
     "get_token_price (feed_env (1 / 4) 10) ''0xT1'' = Some (1 / 4, 625)"
     "get_token_info (feed_env 3 10) ''0xT1'' \<noteq> None"
     "get_token_info (feed_env 2 10) ''0xT1'' \<noteq> None"
     "get_token_info (feed_env (1 / 4) 10) ''0xT1'' \<noteq> None"
    by (simp_all add: feed_env_def)
  have r: "map_of (token_data ex_store) ''0xT1'' = Some ex_rec" "price_eth ex_rec = Some 1"
    by (simp_all add: ex_store_def ex_rec_def)
  from threshold_crossing_edge_triggered
         [OF h1 h2 h3, of "feed_env 3 10" 3 7500 ex_rec 1 2 "1 / 2" 1 2 "feed_env 1 10" 2500
             "feed_env 2 10" 5000 "feed_env 3 10" 3 7500]
       threshold_crossing_edge_triggered
         [OF h1 h2 h3, of "feed_env (1 / 4) 10" "1 / 4" 625 ex_rec 1 2 "1 / 2" 1 2 "feed_env 1 10" 2500
             "feed_env 2 10" 5000 "feed_env 3 10" 3 7500]
       h1 h2 a q r
  show ?thesis by simp
qed

subsection \<open>Registering\<close>

lemma update_alert_ids: "map telegram_id (update_alert tid ph pl as) = map telegram_id as"
  by (induction as) auto

lemma update_alert_mine:
  "distinct (map telegram_id as) \<Longrightarrow> tid \<in> telegram_id ` set as \<Longrightarrow>
     filter (\<lambda>a. telegram_id a = tid) (update_alert tid ph pl as)
       = [\<lparr>telegram_id = tid, price_high = ph, price_low = pl\<rparr>]"
proof (induction as)
  case Nil
  then show ?case by simp
next
  case (Cons a as)
  show ?case
  proof (cases "telegram_id a = tid")
    case True
    with Cons.prems have "tid \<notin> telegram_id ` set as" by simp
    then have "\<forall>x \<in> set as. telegram_id x \<noteq> tid" by (metis imageI)
    then have "filter (\<lambda>a. telegram_id a = tid) as = []" by (simp add: filter_empty_conv)
    with True show ?thesis by (cases a) simp
  next
    case False
    with Cons show ?thesis by auto
  qed
qed

lemma set_update_subset: "set (AList.update k v d) \<subseteq> insert (k, v) (set d)"
  by (induction d) auto

lemma store_alert_alerts:
  "alerts_of (snd (store_alert env tid tok ph pl st)) tok =
     (if list_ex (\<lambda>a. telegram_id a = tid) (alerts_of st tok)
      then update_alert tid ph pl (alerts_of st tok)
      else alerts_of st tok @ [\<lparr>telegram_id = tid, price_high = ph, price_low = pl\<rparr>])"
  by (simp add: store_alert_def alerts_of_def Let_def update_conv' split: option.splits prod.splits)

lemma store_alert_price_alerts:
  "price_alerts (snd (store_alert env tid tok ph pl st)) =
     AList.update tok (alerts_of (snd (store_alert env tid tok ph pl st)) tok) (price_alerts st)"
  by (simp add: store_alert_def alerts_of_def Let_def update_conv' split: option.splits prod.splits)

lemma store_alert_message:
  "fst (store_alert env tid tok ph pl st) = Inr m \<Longrightarrow>
     m = (if list_ex (\<lambda>a. telegram_id a = tid) (alerts_of st tok)
          then Price_alert_updated else Price_alert_added)"
  by (auto simp add: store_alert_def Let_def split: option.splits prod.splits if_splits)

lemma alerts_of_distinct:
  "alerts_inv st \<Longrightarrow> distinct (map telegram_id (alerts_of st tok))"
  by (auto simp add: alerts_inv_def alerts_of_def split: option.splits dest: map_of_SomeD)

lemma store_alert_inv:
  assumes "alerts_inv st"
  shows "alerts_inv (snd (store_alert env tid tok ph pl st))"
proof -
  let ?st' = "snd (store_alert env tid tok ph pl st)"
  let ?v = "alerts_of ?st' tok"
  note d = alerts_of_distinct [OF assms, of tok]
  have dv: "distinct (map telegram_id ?v)"
  proof (cases "list_ex (\<lambda>a. telegram_id a = tid) (alerts_of st tok)")
    case True
    with d show ?thesis by (simp add: store_alert_alerts update_alert_ids)
  next
    case False
    then have "tid \<notin> telegram_id ` set (alerts_of st tok)" by (auto simp add: list_ex_iff)
    with False d show ?thesis by (simp add: store_alert_alerts)
  qed
  have keys: "distinct (map fst (price_alerts ?st'))"
    using assms by (simp add: store_alert_price_alerts alerts_inv_def distinct_update)
  have "\<forall>kv \<in> set (price_alerts ?st'). distinct (map telegram_id (snd kv))"
  proof
    fix kv assume "kv \<in> set (price_alerts ?st')"
    then have "kv \<in> insert (tok, ?v) (set (price_alerts st))"
      using set_update_subset [of tok ?v "price_alerts st"]
      by (simp only: store_alert_price_alerts [of env tid tok ph pl st]) blast
    with dv assms show "distinct (map telegram_id (snd kv))"
      by (auto simp add: alerts_inv_def)
  qed
  with keys show ?thesis by (simp add: alerts_inv_def)
qed

lemma add_is_store:
  assumes "fst (add_price_alert env tid tok ph pl wname st) = Inr m"
  shows "\<exists>st0. price_alerts st0 = price_alerts st \<and>
           add_price_alert env tid tok ph pl wname st = store_alert env tid tok ph pl st0"
proof (cases "truthy_str wname")
  case False
  with assms have "add_price_alert env tid tok ph pl wname st = store_alert env tid tok ph pl st"
    by (auto simp add: add_price_alert_def split: option.splits)
  then show ?thesis by blast
next
  case True
  let ?f = "find_watchlist (the wname) (get_user_watchlists env tid)"
  from True assms obtain u info wl where
    "get_user_by_telegram_id env tid = Some u" "get_token_info env tok = Some info" "?f = Some wl"
    by (auto simp add: add_price_alert_def split: option.splits)
  with True have "add_price_alert env tid tok ph pl wname st =
      store_alert env tid tok ph pl
        (st\<lparr>watchlist_tokens := watchlist_tokens st @
              [\<lparr>wt_watchlist_id = wl_id wl, wt_token_address = tok,
                wt_token_symbol = ti_symbol info,
                wt_alert_price_high = ph, wt_alert_price_low = pl\<rparr>]\<rparr>)"
    by (simp add: add_price_alert_def)
  moreover have "price_alerts (st\<lparr>watchlist_tokens := watchlist_tokens st @
              [\<lparr>wt_watchlist_id = wl_id wl, wt_token_address = tok,
                wt_token_symbol = ti_symbol info,
                wt_alert_price_high = ph, wt_alert_price_low = pl\<rparr>]\<rparr>) = price_alerts st"
    by simp
  ultimately show ?thesis by blast
qed

lemma alerts_of_cong: "price_alerts st0 = price_alerts st \<Longrightarrow> alerts_of st0 tok = alerts_of st tok"
  by (simp add: alerts_of_def)

lemma add_registered:
  assumes "alerts_inv st" "add_price_alert env tid tok ph pl wname st = (Inr m, st')"
  shows "alerts_inv st'"
    and "filter (\<lambda>a. telegram_id a = tid) (alerts_of st' tok)
           = [\<lparr>telegram_id = tid, price_high = ph, price_low = pl\<rparr>]"
    and "m = (if list_ex (\<lambda>a. telegram_id a = tid) (alerts_of st tok)
              then Price_alert_updated else Price_alert_added)"
    and "list_ex (\<lambda>a. telegram_id a = tid) (alerts_of st tok) \<Longrightarrow>
           map telegram_id (alerts_of st' tok) = map telegram_id (alerts_of st tok)"
proof -
  from assms(2) have "fst (add_price_alert env tid tok ph pl wname st) = Inr m" by simp
  from add_is_store [OF this] obtain st0 where
    pa: "price_alerts st0 = price_alerts st" and
    eq: "add_price_alert env tid tok ph pl wname st = store_alert env tid tok ph pl st0" by blast
  from pa assms(1) have inv0: "alerts_inv st0" by (simp add: alerts_inv_def)
  from pa have al: "alerts_of st0 tok = alerts_of st tok" by (rule alerts_of_cong)
  from eq assms(2) have "store_alert env tid tok ph pl st0 = (Inr m, st')" by simp
  then have st': "st' = snd (store_alert env tid tok ph pl st0)"
    and res: "fst (store_alert env tid tok ph pl st0) = Inr m" by simp_all
  show "alerts_inv st'" unfolding st' using inv0 by (rule store_alert_inv)
  note d = alerts_of_distinct [OF inv0, of tok]
  show "filter (\<lambda>a. telegram_id a = tid) (alerts_of st' tok)
           = [\<lparr>telegram_id = tid, price_high = ph, price_low = pl\<rparr>]"
  proof (cases "list_ex (\<lambda>a. telegram_id a = tid) (alerts_of st0 tok)")
    case True
    then have "tid \<in> telegram_id ` set (alerts_of st0 tok)" by (auto simp add: list_ex_iff)
    with True update_alert_mine [OF d this] show ?thesis
      by (simp add: st' store_alert_alerts)
  next
    case False
    then have "\<forall>x \<in> set (alerts_of st0 tok). telegram_id x \<noteq> tid" by (simp add: list_ex_iff)
    then have "filter (\<lambda>a. telegram_id a = tid) (alerts_of st0 tok) = []"
      by (simp add: filter_empty_conv)
    with False show ?thesis by (simp add: st' store_alert_alerts)
  qed
  show "m = (if list_ex (\<lambda>a. telegram_id a = tid) (alerts_of st tok)
              then Price_alert_updated else Price_alert_added)"
    using store_alert_message [OF res] al by simp
  show "map telegram_id (alerts_of st' tok) = map telegram_id (alerts_of st tok)"
    if "list_ex (\<lambda>a. telegram_id a = tid) (alerts_of st tok)"
    using that al by (simp add: st' store_alert_alerts update_alert_ids)
qed

lemma check_alerts_low_le:
  "low_events tid tok (check_alerts env tok prev cur as)
     \<le> length (filter (\<lambda>a. telegram_id a = tid \<and> low_crossed a prev cur) as)"
  by (induction as)
     (auto simp add: check_high_def check_low_def low_events_def split: option.splits)

lemma mine_le_one:
  "distinct (map telegram_id as) \<Longrightarrow>
     length (filter (\<lambda>a. telegram_id a = tid \<and> P a) as) \<le> 1"
proof -
  assume "distinct (map telegram_id as)"
  then have "length (filter (\<lambda>a. telegram_id a = tid) as) \<le> 1" by (rule filter_key_le_one)
  moreover have "length (filter (\<lambda>a. telegram_id a = tid \<and> P a) as)
                   \<le> length (filter (\<lambda>a. telegram_id a = tid) as)"
    by (rule length_filter_conj_le)
  ultimately show ?thesis by simp
qed

lemma poll_at_most_one:
  assumes "alerts_inv st"
  shows "high_events tid tok (snd (check_price_alerts env st)) \<le> 1 \<and>
         low_events tid tok (snd (check_price_alerts env st)) \<le> 1"
proof (cases "map_of (price_alerts st) tok")
  case None
  then have "tok \<notin> fst ` set (price_alerts st)" by (simp add: map_of_eq_None_iff)
  from loop_absent [OF this, of tid env st] show ?thesis
    by (simp add: check_price_alerts_def)
next
  case (Some as)
  note s = subscribed [OF assms Some]
  show ?thesis
  proof (cases "get_token_price env tok")
    case None
    have "tok \<notin> fst ` set (filter (\<lambda>kv. fst kv \<noteq> tok) (price_alerts st))" by auto
    from loop_absent [OF this, of tid env st] loop_failed_skipped [OF None, of st "price_alerts st"]
    show ?thesis by (simp add: check_price_alerts_def)
  next
    case (Some q)
    obtain cur usd where q: "q = (cur, usd)" by (cases q)
    with Some have p: "get_token_price env tok = Some (cur, usd)" by simp
    note lp = loop_present [OF s(1,2) p, of tid st cur]
    have "high_events tid tok (check_alerts env tok (previous_price st tok cur) cur as) \<le> 1"
      using check_alerts_high_le [of tid tok env "previous_price st tok cur" cur as]
            mine_le_one [OF s(3), of tid "\<lambda>a. high_crossed a (previous_price st tok cur) cur"]
      by simp
    moreover have "low_events tid tok (check_alerts env tok (previous_price st tok cur) cur as) \<le> 1"
      using check_alerts_low_le [of tid tok env "previous_price st tok cur" cur as]
            mine_le_one [OF s(3), of tid "\<lambda>a. low_crossed a (previous_price st tok cur) cur"]
      by simp
    ultimately show ?thesis using lp by (simp add: check_price_alerts_def)
  qed
qed

text \<open>
  Claim C5. Registering is idempotent on the pair of subscriber and token. After two
  successful calls of \<open>add_price_alert\<close> for the pair the token's list holds exactly one
  entry of the subscriber, with the thresholds of the second call; the second call reports
  an update and leaves the subscribers of the token as they were; and a poll yields at most
  one high and at most one low event for the pair.
\<close>

theorem register_twice_overwrites:
  assumes "alerts_inv st"
    and "add_price_alert env1 tid tok h1 l1 w1 st = (Inr m1, st1)"
    and "add_price_alert env2 tid tok h2 l2 w2 st1 = (Inr m2, st2)"
  shows "filter (\<lambda>a. telegram_id a = tid) (alerts_of st2 tok)
           = [\<lparr>telegram_id = tid, price_high = h2, price_low = l2\<rparr>] \<and>
         m2 = Price_alert_updated \<and>
         map telegram_id (alerts_of st2 tok) = map telegram_id (alerts_of st1 tok) \<and>
         high_events tid tok (snd (check_price_alerts env st2)) \<le> 1 \<and>
         low_events tid tok (snd (check_price_alerts env st2)) \<le> 1"
proof -
  note r1 = add_registered [OF assms(1,2)]
  note r2 = add_registered [OF r1(1) assms(3)]
  from r1(2) have "filter (\<lambda>a. telegram_id a = tid) (alerts_of st1 tok) \<noteq> []" by simp
  then have ex: "list_ex (\<lambda>a. telegram_id a = tid) (alerts_of st1 tok)"
    by (simp add: list_ex_iff filter_empty_conv)
  from r2(2) r2(3) r2(4) [OF ex] ex poll_at_most_one [OF r2(1), of tid tok env]
  show ?thesis by simp
qed

theorem register_twice_overwrites_witness:
  "alerts_inv empty_store \<and>
   fst (add_price_alert (feed_env 1 10) ''u1'' ''0xT1'' (Some 2) None None empty_store)
     = Inr Price_alert_added \<and>
   fst (add_price_alert (feed_env 1 10) ''u1'' ''0xT1'' (Some 3) (Some (1 / 2)) None
          (snd (add_price_alert (feed_env 1 10) ''u1'' ''0xT1'' (Some 2) None None empty_store)))
     = Inr Price_alert_updated \<and>
   filter (\<lambda>a. telegram_id a = ''u1'')
     (alerts_of
        (snd (add_price_alert (feed_env 1 10) ''u1'' ''0xT1'' (Some 3) (Some (1 / 2)) None
               (snd (add_price_alert (feed_env 1 10) ''u1'' ''0xT1'' (Some 2) None None empty_store))))
        ''0xT1'')
     = [\<lparr>telegram_id = ''u1'', price_high = Some 3, price_low = Some (1 / 2)\<rparr>] \<and>
   high_events ''u1'' ''0xT1''
     (snd (check_price_alerts (feed_env 4 10)
        (snd (add_price_alert (feed_env 1 10) ''u1'' ''0xT1'' (Some 3) (Some (1 / 2)) None
               (snd (add_price_alert (feed_env 1 10) ''u1'' ''0xT1'' (Some 2) None None empty_store))))))
     \<le> 1"
proof -
  let ?r1 = "add_price_alert (feed_env 1 10) ''u1'' ''0xT1'' (Some 2) None None empty_store"
  let ?r2 = "add_price_alert (feed_env 1 10) ''u1'' ''0xT1'' (Some 3) (Some (1 / 2)) None (snd ?r1)"
  have h0: "alerts_inv empty_store" by (simp add: alerts_inv_def empty_store_def)
  have e1: "fst ?r1 = Inr Price_alert_added"
    by (simp add: add_price_alert_def store_alert_def alerts_of_def truthy_str_def
          feed_env_def empty_store_def Let_def)
  have e2: "fst ?r2 = Inr Price_alert_updated"
    by (simp add: add_price_alert_def store_alert_def alerts_of_def truthy_str_def
          feed_env_def empty_store_def Let_def)
  have h1: "?r1 = (Inr Price_alert_added, snd ?r1)" using e1 by (simp add: prod_eq_iff)
  have h2: "?r2 = (Inr Price_alert_updated, snd ?r2)" using e2 by (simp add: prod_eq_iff)
  from register_twice_overwrites [OF h0 h1 h2, of "feed_env 4 10"] h0 e1 e2
  show ?thesis by simp
qed

lemma register_twice_one_event:
  "snd (check_price_alerts (feed_env 4 10)
     (snd (add_price_alert (feed_env 1 10) ''u1'' ''0xT1'' (Some 3) (Some (1 / 2)) None
            (snd (add_price_alert (feed_env 1 10) ''u1'' ''0xT1'' (Some 2) None None empty_store)))))
   = [Price_high_alert ''u1'' ''0xT1'' ex_info 3 4]"
  by (simp add: add_price_alert_def store_alert_def alerts_of_def truthy_str_def
        check_price_alerts_def check_price_token_def previous_price_def check_high_def
        check_low_def high_crossed_def low_crossed_def truthy_float_def
        feed_env_def empty_store_def Let_def)

text \<open>\<open>remove_price_alert\<close> keeps the store well formed as well.\<close>

lemma pop_alert_subset: "set (pop_alert tid as) \<subseteq> set as"
  by (induction as) auto

lemma pop_alert_distinct:
  "distinct (map telegram_id as) \<Longrightarrow> distinct (map telegram_id (pop_alert tid as))"
proof (induction as)
  case Nil
  then show ?case by simp
next
  case (Cons a as)
  have "telegram_id ` set (pop_alert tid as) \<subseteq> telegram_id ` set as"
    using pop_alert_subset [of tid as] by blast
  with Cons show ?case by auto
qed

lemma remove_inv:
  assumes "alerts_inv st"
  shows "alerts_inv (snd (remove_price_alert tid tok st))"
proof (cases "map_of (price_alerts st) tok")
  case None
  with assms show ?thesis by (simp add: remove_price_alert_def)
next
  case (Some as)
  from assms have dk: "distinct (map fst (price_alerts st))"
    and da: "\<forall>kv \<in> set (price_alerts st). distinct (map telegram_id (snd kv))"
    by (simp_all add: alerts_inv_def)
  from Some have "(tok, as) \<in> set (price_alerts st)" by (rule map_of_SomeD)
  with da have "distinct (map telegram_id as)" by force
  then have dp: "distinct (map telegram_id (pop_alert tid as))" by (rule pop_alert_distinct)
  have del: "alerts_inv (st\<lparr>price_alerts := AList.delete tok (price_alerts st)\<rparr>)"
  proof -
    have "set (AList.delete tok (price_alerts st)) \<subseteq> set (price_alerts st)"
      by (auto simp add: AList.delete_eq)
    with dk da show ?thesis by (auto simp add: alerts_inv_def distinct_delete)
  qed
  have upd: "alerts_inv (st\<lparr>price_alerts := AList.update tok (pop_alert tid as) (price_alerts st)\<rparr>)"
  proof -
    have "\<forall>kv \<in> set (AList.update tok (pop_alert tid as) (price_alerts st)).
            distinct (map telegram_id (snd kv))"
    proof
      fix kv assume "kv \<in> set (AList.update tok (pop_alert tid as) (price_alerts st))"
      then have "kv \<in> set (price_alerts st) \<or> kv = (tok, pop_alert tid as)"
        using set_update_subset [of tok "pop_alert tid as" "price_alerts st"] by auto
      with da dp show "distinct (map telegram_id (snd kv))" by auto
    qed
    with dk show ?thesis by (simp add: alerts_inv_def distinct_update)
  qed
  from Some assms del upd show ?thesis
    by (simp add: remove_price_alert_def Let_def)
qed

subsection \<open>Liquidity changes\<close>

lemma quotient_12_10: "fdiv 12 10 = 5404319552844595 / 4503599627370496"
  by (simp add: fdiv_def double_eval)

lemma difference_12_10:
  "fsub (5404319552844595 / 4503599627370496) 1 = 900719925474099 / 4503599627370496"
  by (simp add: fsub_def double_eval)

lemma product_12_10:
  "fmul (900719925474099 / 4503599627370496) 100 = 5629499534213119 / 281474976710656"
  by (simp add: fmul_def double_eval)

lemma change_percent_10_12: "change_percent 10 12 = 5629499534213119 / 281474976710656"
  by (simp add: change_percent_def quotient_12_10 difference_12_10 product_12_10)

lemma change_percent_10_12_5: "change_percent 10 (25 / 2) = 25"
  by (simp add: change_percent_def fdiv_def fsub_def fmul_def double_eval)

text \<open>
  Claim C3 at its own example. The record holds 10.0 ETH and the query answers 12.0 ETH, a
  change of exactly 20 percent. In double arithmetic \<open>12.0 / 10.0\<close> is the double below
  1.2, so \<open>((12.0 / 10.0) - 1) * 100\<close> is 19.999999999999996, the test
  \<open>abs(change_percent) >= 20\<close> fails, and the subscriber of the token gets no event.
\<close>

theorem liquidity_exact_20_percent_missed:
  "change_percent 10 12 < 20 \<and>
   snd (check_liquidity_changes (feed_env 1 12) ex_store) = []"
  by (simp add: change_percent_10_12 check_liquidity_changes_def check_liquidity_token_def
        users_of_def alerts_of_def ex_store_def ex_rec_def ex_alert_def feed_env_def Let_def)

lemma liquidity_25_percent_alerted:
  "snd (check_liquidity_changes (feed_env 1 (25 / 2)) ex_store)
     = [Liquidity_change_alert ''u1'' ''0xT1'' ex_info 10 (25 / 2) 25]"
  by (simp add: change_percent_10_12_5 check_liquidity_changes_def check_liquidity_token_def
        users_of_def alerts_of_def ex_store_def ex_rec_def ex_alert_def feed_env_def Let_def)


lemma liquidity_events_Nil: "liquidity_events tid tok [] = 0"
  by (simp add: liquidity_events_def)

lemma liquidity_events_map:
  "liquidity_events tid tok (map (\<lambda>u. Liquidity_change_alert u tok info prev cur cp) us)
     = length (filter (\<lambda>u. u = tid) us)"
  by (induction us) (auto simp add: liquidity_events_def)

lemma remdups_count: "length (filter (\<lambda>u. u = tid) (remdups us)) = (if tid \<in> set us then 1 else 0)"
proof -
  have "distinct (map (\<lambda>u. u) (remdups us))" by simp
  then have "length (filter (\<lambda>u. (\<lambda>u. u) u = tid) (remdups us)) \<le> 1"
    by (rule filter_key_le_one)
  moreover have "tid \<in> set us \<Longrightarrow> filter (\<lambda>u. u = tid) (remdups us) \<noteq> []"
    by (simp add: filter_empty_conv)
  moreover have "tid \<notin> set us \<Longrightarrow> filter (\<lambda>u. u = tid) (remdups us) = []"
    by (auto simp add: filter_empty_conv)
  ultimately show ?thesis
    by (cases "filter (\<lambda>u. u = tid) (remdups us)") auto
qed

lemma liquidity_fan_out:
  assumes "get_token_liquidity env tok = Some (cur, tq)" "get_token_info env tok = Some info"
    and "eth_liquidity r = Some prev"
  shows "liquidity_events tid tok (snd (check_liquidity_token env st (tok, r)))
           = (if 20 \<le> \<bar>change_percent prev cur\<bar> \<and> tid \<in> telegram_id ` set (alerts_of st tok)
              then 1 else 0)"
  using assms
  by (simp add: check_liquidity_token_def Let_def liquidity_events_map users_of_def remdups_count
        liquidity_events_Nil)

lemma change_percent_12_5_20: "change_percent (25 / 2) 20 = 8444249301319681 / 140737488355328"
  by (simp add: change_percent_def fdiv_def fsub_def fmul_def double_eval)

text \<open>
  The check compares each poll with the record of the poll before and keeps no memory of
  having alerted: two swings in a row are two alerts.
\<close>

lemma liquidity_repeated_swings:
  "liquidity_events ''u1'' ''0xT1'' (snd (check_liquidity_changes (feed_env 1 (25 / 2)) ex_store)) = 1 \<and>
   liquidity_events ''u1'' ''0xT1''
     (snd (check_liquidity_changes (feed_env 1 20)
            (fst (check_liquidity_changes (feed_env 1 (25 / 2)) ex_store)))) = 1"
  by (simp add: change_percent_10_12_5 change_percent_12_5_20 check_liquidity_changes_def
        check_liquidity_token_def users_of_def alerts_of_def ex_store_def ex_rec_def ex_alert_def
        feed_env_def liquidity_events_def)

subsection \<open>A failing price query in the monitoring cycle\<close>

















section \<open>Properties of the copy-trade watcher\<close>

subsection \<open>The processed set\<close>

lemma process_marks: "tx_hash tx \<in> processed_transactions (fst (process_transaction env tx st))"
  by (simp add: process_transaction_def Let_def split: option.splits)

lemma process_processed:
  "processed_transactions (fst (process_transaction env tx st)) =
     insert (tx_hash tx) (processed_transactions st)"
  by (auto simp add: process_transaction_def Let_def split: option.splits)

lemma setup_processed:
  "processed_transactions (snd (setup_copy_trading env tid target sg me sb st)) =
     processed_transactions st"
  by (simp add: setup_copy_trading_def create_copy_trade_config_def Let_def split: option.splits prod.splits)

lemma update_processed:
  "processed_transactions (snd (update_copy_trading env tid cid act sg sb me st)) =
     processed_transactions st"
  by (simp add: update_copy_trading_def Let_def split: option.splits prod.splits)

lemma step_processed:
  "processed_transactions st \<subseteq> processed_transactions (fst (ct_step c st))"
proof (cases c)
  case (Pair env call)
  then show ?thesis
    by (cases call) (auto simp add: setup_processed update_processed process_processed)
qed

lemma run_processed:
  "processed_transactions st \<subseteq> processed_transactions (fst (ct_run cs st))"
proof (induction cs arbitrary: st)
  case Nil
  then show ?case by simp
next
  case (Cons c cs)
  have "processed_transactions st \<subseteq> processed_transactions (fst (ct_step c st))"
    by (rule step_processed)
  also have "\<dots> \<subseteq> processed_transactions (fst (ct_run cs (fst (ct_step c st))))"
    by (rule Cons.IH)
  finally show ?case by (simp add: split_beta)
qed

lemma process_again:
  "tx_hash tx \<in> processed_transactions st \<Longrightarrow> process_transaction env tx st = (st, [])"
  by (simp add: process_transaction_def)

lemma process_intent_hash:
  "i \<in> set (snd (process_transaction env tx st)) \<Longrightarrow>
     snd i = tx_hash tx \<and> tx_hash tx \<notin> processed_transactions st"
  by (auto simp add: process_transaction_def Let_def split: option.splits if_splits)

lemma step_intent_hash:
  "i \<in> set (snd (ct_step c st)) \<Longrightarrow> snd i \<notin> processed_transactions st"
proof (cases c)
  case (Pair env call)
  assume "i \<in> set (snd (ct_step c st))"
  with Pair show ?thesis
    by (cases call) (auto dest: process_intent_hash)
qed

lemma run_intent_hash:
  "i \<in> set (snd (ct_run cs st)) \<Longrightarrow> snd i \<notin> processed_transactions st"
proof (induction cs arbitrary: st)
  case Nil
  then show ?case by simp
next
  case (Cons c cs)
  from Cons.prems have "i \<in> set (snd (ct_step c st)) \<or> i \<in> set (snd (ct_run cs (fst (ct_step c st))))"
    by (auto simp add: split_beta)
  then show ?case
  proof
    assume "i \<in> set (snd (ct_step c st))"
    then show ?thesis by (rule step_intent_hash)
  next
    assume "i \<in> set (snd (ct_run cs (fst (ct_step c st))))"
    then have "snd i \<notin> processed_transactions (fst (ct_step c st))" by (rule Cons.IH)
    with step_processed [of st c] show ?thesis by blast
  qed
qed

text \<open>
  Claim C10. \<open>process_transaction\<close> adds the hash of every transaction it is given to
  \<open>processed_transactions\<close> before it looks the sender up in \<open>monitored_wallets\<close>. So the
  hash is in the set after the first call, whether or not the sender was watched, and a later
  call with the same hash yields no mirror intent, whatever calls (a new subscription for
  that sender among them) were made in between.
\<close>

theorem marked_before_sender_test:
  "tx_hash tx \<in> processed_transactions (fst (process_transaction env tx st)) \<and>
   snd (process_transaction env' tx (fst (ct_run cs (fst (process_transaction env tx st))))) = []"
proof
  show m: "tx_hash tx \<in> processed_transactions (fst (process_transaction env tx st))"
    by (rule process_marks)
  have "tx_hash tx \<in> processed_transactions (fst (ct_run cs (fst (process_transaction env tx st))))"
    using m run_processed by blast
  then show "snd (process_transaction env' tx (fst (ct_run cs (fst (process_transaction env tx st))))) = []"
    by (simp add: process_again)
qed


theorem marked_before_sender_test_witness:
  "map_of (monitored_wallets (start_state [])) (tx_from ex_tx) = None \<and>
   tx_hash ex_tx \<in> processed_transactions (fst (process_transaction ex_env ex_tx (start_state []))) \<and>
   snd (process_transaction ex_env ex_tx
          (fst (ct_run [(ex_env, Setup ''u1'' ''0xW1'' 5 (1 / 10) True)]
                 (fst (process_transaction ex_env ex_tx (start_state [])))))) = []"
  using marked_before_sender_test
          [of ex_tx ex_env "start_state []" ex_env "[(ex_env, Setup ''u1'' ''0xW1'' 5 (1 / 10) True)]"]
  by (simp add: start_state_def)

subsection \<open>The registry invariant\<close>

lemma all_ids_Nil [simp]: "all_ids [] = []"
  by (simp add: all_ids_def)

lemma all_ids_Cons [simp]: "all_ids (kv # d) = map config_id (snd kv) @ all_ids d"
  by (simp add: all_ids_def)

lemma set_all_ids_delete: "set (all_ids (AList.delete k d)) \<subseteq> set (all_ids d)"
  by (induction d) auto

lemma distinct_all_ids_delete: "distinct (all_ids d) \<Longrightarrow> distinct (all_ids (AList.delete k d))"
proof (induction d)
  case Nil
  then show ?case by simp
next
  case (Cons kv d)
  then show ?case using set_all_ids_delete [of k d] by auto
qed

lemma set_all_ids_update:
  "distinct (map fst d) \<Longrightarrow>
     set (all_ids (AList.update k v d)) = set (map config_id v) \<union> set (all_ids (AList.delete k d))"
  by (induction d) (auto simp add: rev_image_eqI)

lemma distinct_all_ids_update:
  "distinct (map fst d) \<Longrightarrow>
     distinct (all_ids (AList.update k v d)) =
       (distinct (map config_id v) \<and> distinct (all_ids (AList.delete k d)) \<and>
        set (map config_id v) \<inter> set (all_ids (AList.delete k d)) = {})"
proof (induction d)
  case Nil
  then show ?case by simp
next
  case (Cons kv d)
  show ?case
  proof (cases "fst kv = k")
    case True
    with Cons.prems have "k \<notin> fst ` set d" by auto
    then have "AList.delete k d = d" by simp
    with True show ?thesis by auto
  next
    case False
    from Cons.prems have dk: "distinct (map fst d)" by simp
    from False Cons.IH [OF dk] set_all_ids_update [OF dk, of k v] show ?thesis
      by auto
  qed
qed

lemma entry_ids_subset: "map_of d k = Some v \<Longrightarrow> set (map config_id v) \<subseteq> set (all_ids d)"
  by (induction d) (auto split: if_splits)

lemma entry_disjoint:
  "distinct (map fst d) \<Longrightarrow> distinct (all_ids d) \<Longrightarrow> map_of d k = Some v \<Longrightarrow>
     distinct (map config_id v) \<and> set (map config_id v) \<inter> set (all_ids (AList.delete k d)) = {}"
proof (induction d)
  case Nil
  then show ?case by simp
next
  case (Cons kv d)
  show ?case
  proof (cases "fst kv = k")
    case True
    with Cons.prems have "k \<notin> fst ` set d" by auto
    then have "AList.delete k d = d" by simp
    with True Cons.prems show ?thesis by auto
  next
    case False
    with Cons.prems have m: "map_of d k = Some v" by simp
    from Cons.prems have "distinct (map fst d)" "distinct (all_ids d)" by simp_all
    from Cons.IH [OF this m] entry_ids_subset [OF m] Cons.prems(2) False show ?thesis
      by auto
  qed
qed

lemma entries_disjoint:
  assumes "distinct (map fst d)" "distinct (all_ids d)"
    and "map_of d k = Some v" "map_of d w = Some v'" "k \<noteq> w"
  shows "set (map config_id v) \<inter> set (map config_id v') = {}"
proof -
  from assms(4,5) have "map_of (AList.delete k d) w = Some v'" by simp
  then have "set (map config_id v') \<subseteq> set (all_ids (AList.delete k d))"
    by (rule entry_ids_subset)
  with entry_disjoint [OF assms(1-3)] show ?thesis by blast
qed

lemma update_configs_ids:
  "set (map config_id (update_configs cid act sg sb me ucs)) \<subseteq> set (map config_id ucs)"
  by (induction ucs) (auto simp add: set_entry_def)

lemma update_configs_distinct:
  "distinct (map config_id ucs) \<Longrightarrow> distinct (map config_id (update_configs cid act sg sb me ucs))"
proof (induction ucs)
  case Nil
  then show ?case by simp
next
  case (Cons uc ucs)
  then show ?case using update_configs_ids [of cid act sg sb me ucs]
    by (auto simp add: set_entry_def)
qed

lemma update_configs_deactivate:
  "distinct (map config_id ucs) \<Longrightarrow>
     update_configs cid (Some False) sg sb me ucs = filter (\<lambda>uc. config_id uc \<noteq> cid) ucs"
proof (induction ucs)
  case Nil
  then show ?case by simp
next
  case (Cons uc ucs)
  show ?case
  proof (cases "config_id uc = cid")
    case True
    with Cons.prems have "cid \<notin> config_id ` set ucs" by simp
    then have "\<forall>x \<in> set ucs. config_id x \<noteq> cid" by (metis imageI)
    then have "filter (\<lambda>uc. config_id uc \<noteq> cid) ucs = ucs" by (simp add: filter_id_conv)
    with True show ?thesis by simp
  next
    case False
    with Cons show ?thesis by simp
  qed
qed

lemma update_wallets_inv:
  assumes "distinct (map fst d)" "distinct (all_ids d)"
    and "\<forall>kv \<in> set kvs. map_of d (fst kv) = Some (snd kv)" "distinct (map fst kvs)"
  shows "distinct (map fst (snd (update_wallets cid act sg sb me kvs d))) \<and>
         distinct (all_ids (snd (update_wallets cid act sg sb me kvs d))) \<and>
         set (all_ids (snd (update_wallets cid act sg sb me kvs d))) \<subseteq> set (all_ids d)"
  using assms
proof (induction kvs arbitrary: d)
  case Nil
  then show ?case by simp
next
  case (Cons kv kvs)
  let ?v' = "update_configs cid act sg sb me (snd kv)"
  let ?d1 = "AList.update (fst kv) ?v' d"
  from Cons.prems have look: "map_of d (fst kv) = Some (snd kv)" by simp
  note ed = entry_disjoint [OF Cons.prems(1,2) look]
  have sub: "set (map config_id ?v') \<subseteq> set (map config_id (snd kv))"
    by (rule update_configs_ids)
  have dv: "distinct (map config_id ?v')"
    using ed by (simp add: update_configs_distinct)
  have d1_keys: "distinct (map fst ?d1)"
    using Cons.prems(1) by (rule distinct_update)
  have d1_ids: "distinct (all_ids ?d1)"
    using ed sub dv Cons.prems(1,2)
    by (simp only: distinct_all_ids_update [OF Cons.prems(1)])
       (auto simp add: distinct_all_ids_delete)
  have d1_sub: "set (all_ids ?d1) \<subseteq> set (all_ids d)"
    using sub entry_ids_subset [OF look] set_all_ids_delete [of "fst kv" d]
    by (simp only: set_all_ids_update [OF Cons.prems(1)]) blast
  have rest_d1: "\<forall>kv' \<in> set kvs. map_of ?d1 (fst kv') = Some (snd kv')"
    using Cons.prems(3,4) by (force simp add: update_conv')
  have rest_d: "\<forall>kv' \<in> set kvs. map_of d (fst kv') = Some (snd kv')"
    using Cons.prems(3) by simp
  have dk: "distinct (map fst kvs)" using Cons.prems(4) by simp
  show ?case
  proof (cases "list_ex (\<lambda>uc. config_id uc = cid) (snd kv)")
    case False
    with Cons.IH [OF Cons.prems(1,2) rest_d dk] show ?thesis by simp
  next
    case True
    show ?thesis
    proof (cases "act = Some False \<and> ?v' = []")
      case True
      with \<open>list_ex (\<lambda>uc. config_id uc = cid) (snd kv)\<close> Cons.prems(1,2)
      show ?thesis
        using set_all_ids_delete [of "fst kv" d]
        by (auto simp add: distinct_delete distinct_all_ids_delete)
    next
      case False
      from Cons.IH [OF d1_keys d1_ids rest_d1 dk] d1_sub
      have "distinct (map fst (snd (update_wallets cid act sg sb me kvs ?d1))) \<and>
            distinct (all_ids (snd (update_wallets cid act sg sb me kvs ?d1))) \<and>
            set (all_ids (snd (update_wallets cid act sg sb me kvs ?d1))) \<subseteq> set (all_ids d)"
        by blast
      with False \<open>list_ex (\<lambda>uc. config_id uc = cid) (snd kv)\<close> show ?thesis
        by auto
    qed
  qed
qed

lemma next_config_id_append:
  "next_config_id (cs @ [c]) = Suc (max (cfg_id c) (fold max (map cfg_id cs) 0))"
  by (simp add: next_config_id_def)

lemma update_config_ids:
  "map cfg_id (snd (update_copy_trade_config cid act sg sb me cs)) = map cfg_id cs"
  by (induction cs) (auto simp add: set_row_def split_beta)

lemma update_config_next:
  "next_config_id (snd (update_copy_trade_config cid act sg sb me cs)) = next_config_id cs"
  by (simp add: next_config_id_def update_config_ids)

lemma process_inv: "ct_inv st \<Longrightarrow> ct_inv (fst (process_transaction env tx st))"
  by (auto simp add: process_transaction_def ct_inv_def Let_def split: option.splits)

lemma update_inv:
  assumes "ct_inv st"
  shows "ct_inv (snd (update_copy_trading env tid cid act sg sb me st))"
proof -
  let ?d = "monitored_wallets st"
  have "distinct (map fst ?d)" "distinct (all_ids ?d)"
    using assms by (simp_all add: ct_inv_def)
  moreover have "\<forall>kv \<in> set ?d. map_of ?d (fst kv) = Some (snd kv)"
    using \<open>distinct (map fst ?d)\<close> by simp
  ultimately have w:
    "distinct (map fst (snd (update_wallets cid act sg sb me ?d ?d))) \<and>
     distinct (all_ids (snd (update_wallets cid act sg sb me ?d ?d))) \<and>
     set (all_ids (snd (update_wallets cid act sg sb me ?d ?d))) \<subseteq> set (all_ids ?d)"
    by (intro update_wallets_inv) simp_all
  have n: "next_config_id (snd (update_copy_trade_config cid act sg sb me (copy_trade_configs st)))
             = next_config_id (copy_trade_configs st)"
    by (rule update_config_next)
  show ?thesis
  proof (cases "get_user_by_telegram_id env tid")
    case None
    with assms show ?thesis by (simp add: update_copy_trading_def)
  next
    case (Some u)
    show ?thesis
    proof (cases "update_copy_trade_config cid act sg sb me (copy_trade_configs st)")
      case (Pair r cs)
      show ?thesis
      proof (cases r)
        case None
        with Some Pair assms show ?thesis by (simp add: update_copy_trading_def)
      next
        case (Some c)
        with \<open>get_user_by_telegram_id env tid = Some u\<close> Pair w n assms show ?thesis
          by (auto simp add: update_copy_trading_def ct_inv_def split_beta Let_def)
      qed
    qed
  qed
qed

lemma setup_inv:
  assumes "ct_inv st"
  shows "ct_inv (snd (setup_copy_trading env tid target sg me sb st))"
proof -
  let ?d = "monitored_wallets st"
  let ?cs = "copy_trade_configs st"
  define old where "old = (case map_of ?d target of None \<Rightarrow> [] | Some ucs \<Rightarrow> ucs)"
  define new where "new = \<lparr>uc_telegram_id = tid, config_id = next_config_id ?cs, slippage_guard = sg,
               max_eth_per_trade = me, sandbox_mode = sb, active = None\<rparr>"
  define c where "c = \<lparr>cfg_id = next_config_id ?cs, cfg_telegram_id = tid, cfg_target_wallet = target,
             cfg_slippage_guard = sg, cfg_active = True, cfg_sandbox_mode = sb,
             cfg_max_eth_per_trade = me\<rparr>"
  define d1 where "d1 = AList.update target (old @ [new]) ?d"
  from assms have dk: "distinct (map fst ?d)" and di: "distinct (all_ids ?d)"
    and bound: "\<forall>i \<in> set (all_ids ?d). i < next_config_id ?cs"
    by (simp_all add: ct_inv_def)
  have fresh: "next_config_id ?cs \<notin> set (all_ids ?d)"
    using bound by auto
  have old: "distinct (map config_id old) \<and>
             set (map config_id old) \<inter> set (all_ids (AList.delete target ?d)) = {} \<and>
             set (map config_id old) \<subseteq> set (all_ids ?d)"
  proof (cases "map_of ?d target")
    case None
    then show ?thesis by (simp add: old_def)
  next
    case (Some ucs)
    with entry_disjoint [OF dk di Some] entry_ids_subset [OF Some] show ?thesis
      by (simp add: old_def)
  qed
  have ids_new: "set (map config_id (old @ [new])) = insert (next_config_id ?cs) (set (map config_id old))"
    by (simp add: new_def)
  have dist_new: "distinct (map config_id (old @ [new]))"
  proof -
    have "next_config_id ?cs \<notin> set (map config_id old)" using old fresh by blast
    with old show ?thesis by (simp add: new_def)
  qed
  have disj_new: "set (map config_id (old @ [new])) \<inter> set (all_ids (AList.delete target ?d)) = {}"
    using old fresh set_all_ids_delete [of target ?d] unfolding ids_new by blast
  have k1: "distinct (map fst d1)" unfolding d1_def using dk by (rule distinct_update)
  have i1: "distinct (all_ids d1)"
    unfolding d1_def distinct_all_ids_update [OF dk]
    using dist_new disj_new di by (simp add: distinct_all_ids_delete)
  have s1: "set (all_ids d1) \<subseteq> insert (next_config_id ?cs) (set (all_ids ?d))"
    unfolding d1_def set_all_ids_update [OF dk] ids_new
    using old set_all_ids_delete [of target ?d] by blast
  have b1: "\<forall>i \<in> set (all_ids d1). i < next_config_id (?cs @ [c])"
  proof
    fix i assume "i \<in> set (all_ids d1)"
    with s1 have "i = next_config_id ?cs \<or> i \<in> set (all_ids ?d)" by blast
    then have "i \<le> next_config_id ?cs"
    proof
      assume "i = next_config_id ?cs"
      then show ?thesis by simp
    next
      assume "i \<in> set (all_ids ?d)"
      with bound have "i < next_config_id ?cs" by blast
      then show ?thesis by simp
    qed
    then show "i < next_config_id (?cs @ [c])"
      by (simp add: next_config_id_append c_def)
  qed
  show ?thesis
  proof (cases "is_address env target")
    case False
    with assms show ?thesis by (simp add: setup_copy_trading_def)
  next
    case True
    show ?thesis
    proof (cases "get_user_by_telegram_id env tid")
      case None
      with True assms show ?thesis by (simp add: setup_copy_trading_def)
    next
      case (Some u)
      show ?thesis
      proof (cases "truthy_str (wallet_address u)")
        case False
        with True Some assms show ?thesis by (simp add: setup_copy_trading_def)
      next
        case tw: True
        have "snd (setup_copy_trading env tid target sg me sb st) =
                st\<lparr>copy_trade_configs := ?cs @ [c], monitored_wallets := d1\<rparr>"
          using True Some tw
          by (simp add: setup_copy_trading_def create_copy_trade_config_def Let_def
                c_def d1_def old_def new_def)
        with k1 i1 b1 show ?thesis
          by (simp add: ct_inv_def)
      qed
    qed
  qed
qed

lemma step_inv: "ct_inv st \<Longrightarrow> ct_inv (fst (ct_step c st))"
proof (cases c)
  case (Pair env call)
  assume "ct_inv st"
  with Pair show ?thesis
    by (cases call) (simp_all add: setup_inv update_inv process_inv)
qed

lemma run_inv: "ct_inv st \<Longrightarrow> ct_inv (fst (ct_run cs st))"
proof (induction cs arbitrary: st)
  case Nil
  then show ?case by simp
next
  case (Cons c cs)
  from Cons.prems have "ct_inv (fst (ct_step c st))" by (rule step_inv)
  then have "ct_inv (fst (ct_run cs (fst (ct_step c st))))" by (rule Cons.IH)
  then show ?case by (simp add: split_beta)
qed

lemma start_inv: "ct_inv (start_state cs)"
  by (simp add: ct_inv_def start_state_def)

lemma process_count:
  assumes "ct_inv st"
  shows "length (filter (\<lambda>i. config_id (fst i) = cid \<and> snd i = h)
           (snd (process_transaction env tx st))) \<le> 1"
proof (cases "tx_hash tx \<in> processed_transactions st")
  case True
  then show ?thesis by (simp add: process_transaction_def)
next
  case False
  show ?thesis
  proof (cases "map_of (monitored_wallets st) (tx_from tx)")
    case None
    with False show ?thesis by (simp add: process_transaction_def)
  next
    case (Some ucs)
    from assms have "distinct (map fst (monitored_wallets st))" "distinct (all_ids (monitored_wallets st))"
      by (simp_all add: ct_inv_def)
    from entry_disjoint [OF this Some] have "distinct (map config_id ucs)" by simp
    then have d: "distinct (map config_id (filter (\<lambda>uc. can_trade env (uc_telegram_id uc)) ucs))"
      by (rule distinct_map_filter)
    have "length (filter (\<lambda>i. config_id (fst i) = cid \<and> snd i = h)
             (map (\<lambda>uc. (uc, tx_hash tx)) (filter (\<lambda>uc. can_trade env (uc_telegram_id uc)) ucs)))
          \<le> length (filter (\<lambda>uc. config_id uc = cid) (filter (\<lambda>uc. can_trade env (uc_telegram_id uc)) ucs))"
      by (simp add: filter_map comp_def length_filter_conj_le del: filter_filter)
    also have "\<dots> \<le> 1" using d by (rule filter_key_le_one)
    finally show ?thesis using False Some by (simp add: process_transaction_def)
  qed
qed


lemma step_intent_marked:
  "i \<in> set (snd (ct_step c st)) \<Longrightarrow> snd i \<in> processed_transactions (fst (ct_step c st))"
proof (cases c)
  case (Pair env call)
  assume "i \<in> set (snd (ct_step c st))"
  with Pair show ?thesis
    by (cases call) (auto dest: process_intent_hash simp add: process_processed)
qed

lemma step_count:
  assumes "ct_inv st"
  shows "length (filter (\<lambda>i. config_id (fst i) = cid \<and> snd i = h) (snd (ct_step c st))) \<le> 1"
proof (cases c)
  case (Pair env call)
  with process_count [OF assms, of cid h] show ?thesis
    by (cases call) simp_all
qed

lemma run_count:
  assumes "ct_inv st"
  shows "length (filter (\<lambda>i. config_id (fst i) = cid \<and> snd i = h) (snd (ct_run cs st))) \<le> 1"
  using assms
proof (induction cs arbitrary: st)
  case Nil
  then show ?case by simp
next
  case (Cons c cs)
  let ?P = "\<lambda>i. config_id (fst i) = cid \<and> snd i = h"
  let ?st1 = "fst (ct_step c st)"
  have run_eq: "snd (ct_run (c # cs) st) = snd (ct_step c st) @ snd (ct_run cs ?st1)"
    by (simp add: split_beta)
  show ?case
  proof (cases "h \<in> processed_transactions ?st1")
    case True
    have "\<forall>i \<in> set (snd (ct_run cs ?st1)). \<not> ?P i"
      using True run_intent_hash by blast
    then have "filter ?P (snd (ct_run cs ?st1)) = []"
      by (simp add: filter_empty_conv)
    with step_count [OF Cons.prems, of cid h c] show ?thesis
      by (simp add: run_eq del: ct_run.simps)
  next
    case False
    have "\<forall>i \<in> set (snd (ct_step c st)). \<not> ?P i"
      using False step_intent_marked by blast
    then have "filter ?P (snd (ct_step c st)) = []"
      by (simp add: filter_empty_conv)
    moreover have "length (filter ?P (snd (ct_run cs ?st1))) \<le> 1"
      by (rule Cons.IH) (rule step_inv [OF Cons.prems])
    ultimately show ?thesis by (simp add: run_eq del: ct_run.simps)
  qed
qed

text \<open>
  Claim C2. In any run of the module from the start of the process, whatever the calls and
  their order, at most one mirror intent is produced for a configuration id and a transaction
  hash. The reason is the processed set: a call for a hash already in the set returns at
  once with no intent and the same state, and no call ever removes a hash from the set.
\<close>

theorem at_most_one_mirror_intent:
  "length (filter (\<lambda>i. config_id (fst i) = cid \<and> snd i = h)
     (snd (ct_run calls (start_state db)))) \<le> 1 \<and>
   (tx_hash tx \<in> processed_transactions st \<longrightarrow>
      process_transaction env tx st = (st, []) \<and>
      tx_hash tx \<in> processed_transactions (fst (ct_run calls st)))"
proof
  show "length (filter (\<lambda>i. config_id (fst i) = cid \<and> snd i = h)
     (snd (ct_run calls (start_state db)))) \<le> 1"
    by (rule run_count) (rule start_inv)
  show "tx_hash tx \<in> processed_transactions st \<longrightarrow>
      process_transaction env tx st = (st, []) \<and>
      tx_hash tx \<in> processed_transactions (fst (ct_run calls st))"
    using run_processed [of st calls] by (auto simp add: process_again)
qed

theorem at_most_one_mirror_intent_witness:
  "length (filter (\<lambda>i. config_id (fst i) = 1 \<and> snd i = ''0xabc'')
     (snd (ct_run ex_calls (start_state [])))) \<le> 1 \<and>
   tx_hash ex_tx \<in> processed_transactions (fst (process_transaction ex_env ex_tx ex_ct_state)) \<and>
   process_transaction ex_env ex_tx (fst (process_transaction ex_env ex_tx ex_ct_state)) =
     (fst (process_transaction ex_env ex_tx ex_ct_state), []) \<and>
   tx_hash ex_tx \<in> processed_transactions
     (fst (ct_run ex_calls (fst (process_transaction ex_env ex_tx ex_ct_state))))"
proof -
  have h: "tx_hash ex_tx \<in> processed_transactions (fst (process_transaction ex_env ex_tx ex_ct_state))"
    by (simp add: process_transaction_def ex_ct_state_def Let_def split: option.splits)
  from at_most_one_mirror_intent
         [of 1 "''0xabc''" ex_calls "[]" ex_tx "fst (process_transaction ex_env ex_tx ex_ct_state)" ex_env]
       h
  show ?thesis by blast
qed

lemma transaction_seen_twice:
  "snd (ct_run ex_calls (start_state [])) = [(ex_uc ''u1'' 1, ''0xabc'')]"
  by (simp add: ex_calls_def start_state_def setup_copy_trading_def create_copy_trade_config_def
        next_config_id_def process_transaction_def can_trade_def truthy_str_def
        ex_env_def ex_user_def ex_tx_def ex_uc_def Let_def)

subsection \<open>Deactivation\<close>

lemma entries_update: "entries (AList.update k v d) w = (if w = k then v else entries d w)"
  by (simp add: entries_def update_conv')

lemma entries_delete: "entries (AList.delete k d) w = (if w = k then [] else entries d w)"
  by (simp add: entries_def delete_conv')

lemma update_entry_inv:
  assumes "distinct (map fst d)" "distinct (all_ids d)" "map_of d k = Some v"
    and "set (map config_id v') \<subseteq> set (map config_id v)" "distinct (map config_id v')"
  shows "distinct (map fst (AList.update k v' d)) \<and> distinct (all_ids (AList.update k v' d)) \<and>
         set (all_ids (AList.update k v' d)) \<subseteq> set (all_ids d)"
proof -
  note ed = entry_disjoint [OF assms(1-3)]
  have "distinct (map fst (AList.update k v' d))"
    using assms(1) by (rule distinct_update)
  moreover have "distinct (all_ids (AList.update k v' d))"
    unfolding distinct_all_ids_update [OF assms(1)]
    using ed assms(2,4,5) by (auto simp add: distinct_all_ids_delete)
  moreover have "set (all_ids (AList.update k v' d)) \<subseteq> set (all_ids d)"
    unfolding set_all_ids_update [OF assms(1)]
    using assms(4) entry_ids_subset [OF assms(3)] set_all_ids_delete [of k d] by blast
  ultimately show ?thesis by blast
qed

lemma update_wallets_deactivate:
  assumes "distinct (map fst d)" "distinct (all_ids d)"
    and "\<forall>kv \<in> set kvs. map_of d (fst kv) = Some (snd kv)" "distinct (map fst kvs)"
  shows "entries (snd (update_wallets cid (Some False) sg sb me kvs d)) w =
           (if w \<in> fst ` set kvs then filter (\<lambda>uc. config_id uc \<noteq> cid) (entries d w)
            else entries d w)"
  using assms
proof (induction kvs arbitrary: d)
  case Nil
  then show ?case by simp
next
  case (Cons kv kvs)
  let ?v' = "update_configs cid (Some False) sg sb me (snd kv)"
  let ?d1 = "AList.update (fst kv) ?v' d"
  let ?keep = "\<lambda>uc. config_id uc \<noteq> cid"
  from Cons.prems have look: "map_of d (fst kv) = Some (snd kv)" by simp
  then have ent: "entries d (fst kv) = snd kv" by (simp add: entries_def)
  note ed = entry_disjoint [OF Cons.prems(1,2) look]
  have v': "?v' = filter ?keep (snd kv)"
    using ed by (simp add: update_configs_deactivate)
  have rest_d: "\<forall>kv' \<in> set kvs. map_of d (fst kv') = Some (snd kv')"
    using Cons.prems(3) by simp
  have dk: "distinct (map fst kvs)" and notin: "fst kv \<notin> fst ` set kvs"
    using Cons.prems(4) by simp_all
  show ?case
  proof (cases "list_ex ?keep (snd kv) \<or> \<not> list_ex (\<lambda>uc. config_id uc = cid) (snd kv)")
    case True
    show ?thesis
    proof (cases "list_ex (\<lambda>uc. config_id uc = cid) (snd kv)")
      case False
      then have same: "filter ?keep (snd kv) = snd kv"
        by (simp add: list_ex_iff filter_id_conv)
      from False Cons.IH [OF Cons.prems(1,2) rest_d dk] ent same notin show ?thesis
        by auto
    next
      case has: True
      with True have "list_ex ?keep (snd kv)" by simp
      then have ne: "?v' \<noteq> []"
        unfolding v' by (simp add: list_ex_iff filter_empty_conv)
      have sub: "set (map config_id ?v') \<subseteq> set (map config_id (snd kv))"
        by (rule update_configs_ids)
      have dv: "distinct (map config_id ?v')"
        using ed by (simp add: update_configs_distinct)
      from update_entry_inv [OF Cons.prems(1,2) look sub dv]
      have k1: "distinct (map fst ?d1)" and i1: "distinct (all_ids ?d1)" by simp_all
      have rest_d1: "\<forall>kv' \<in> set kvs. map_of ?d1 (fst kv') = Some (snd kv')"
        using Cons.prems(3,4) by (force simp add: update_conv')
      from has ne Cons.IH [OF k1 i1 rest_d1 dk] ent v' notin show ?thesis
        by (auto simp add: entries_update)
    qed
  next
    case False
    then have has: "list_ex (\<lambda>uc. config_id uc = cid) (snd kv)" and none: "\<not> list_ex ?keep (snd kv)"
      by simp_all
    from none have emp: "?v' = []"
      unfolding v' by (simp add: list_ex_iff filter_empty_conv)
    have res: "snd (update_wallets cid (Some False) sg sb me (kv # kvs) d) = AList.delete (fst kv) d"
      using has emp by simp
    have other: "filter ?keep (entries d w) = entries d w" if "w \<in> fst ` set kvs"
    proof -
      from that obtain kv' where kv': "kv' \<in> set kvs" "fst kv' = w" by auto
      with rest_d have lw: "map_of d w = Some (snd kv')" by auto
      from kv' notin have "fst kv \<noteq> w" by auto
      from entries_disjoint [OF Cons.prems(1,2) look lw this] has
      have "\<forall>uc \<in> set (snd kv'). config_id uc \<noteq> cid"
        by (auto simp add: list_ex_iff)
      with lw show ?thesis by (simp add: entries_def filter_id_conv)
    qed
    show ?thesis
    proof (cases "w = fst kv")
      case True
      with ent v' emp show ?thesis unfolding res by (simp add: entries_delete)
    next
      case False
      with other show ?thesis unfolding res by (simp add: entries_delete)
    qed
  qed
qed

lemma process_intents:
  "snd (process_transaction env tx st) =
     (if tx_hash tx \<in> processed_transactions st then []
      else map (\<lambda>uc. (uc, tx_hash tx))
             (filter (\<lambda>uc. can_trade env (uc_telegram_id uc)) (entries (monitored_wallets st) (tx_from tx))))"
  by (simp add: process_transaction_def entries_def Let_def split: option.splits)

lemma update_config_found:
  "cid \<in> set (map cfg_id cs) \<Longrightarrow> fst (update_copy_trade_config cid act sg sb me cs) \<noteq> None"
  by (induction cs) (auto simp add: split_beta)

lemma update_config_deactivated:
  "cid \<in> set (map cfg_id cs) \<Longrightarrow>
     \<exists>c \<in> set (snd (update_copy_trade_config cid (Some False) sg sb me cs)).
        cfg_id c = cid \<and> \<not> cfg_active c"
  by (induction cs) (auto simp add: split_beta set_row_def)

lemma update_state:
  assumes "get_user_by_telegram_id env tid \<noteq> None" "cid \<in> set (map cfg_id (copy_trade_configs st))"
  shows "snd (update_copy_trading env tid cid act sg sb me st) =
           st\<lparr>copy_trade_configs := snd (update_copy_trade_config cid act sg sb me (copy_trade_configs st)),
              monitored_wallets :=
                snd (update_wallets cid act sg sb me (monitored_wallets st) (monitored_wallets st))\<rparr>"
proof -
  from assms(1) obtain u where u: "get_user_by_telegram_id env tid = Some u" by auto
  obtain r cs where p: "update_copy_trade_config cid act sg sb me (copy_trade_configs st) = (r, cs)"
    by (cases "update_copy_trade_config cid act sg sb me (copy_trade_configs st)")
  with update_config_found [OF assms(2), of act sg sb me] obtain c where c: "r = Some c" by auto
  show ?thesis
    using u p c by (simp add: update_copy_trading_def split_beta Let_def)
qed

text \<open>
  Claim C8. Let \<open>update_copy_trading\<close> be called with \<open>active=False\<close> for a configuration
  that exists, by a known user, in a well-formed state. Afterwards any transaction yields
  exactly the mirror intents it yielded before, without those of the deactivated
  configuration: the other entries, on the same wallet and on others, are untouched. The
  table keeps all its rows, and the row of the configuration is still there, inactive.
  (The result value of the call itself is not part of the statement: when the entry was the
  last of its wallet the call reports \<open>Error updating copy trading\<close>, after having done all
  of the above.)
\<close>

theorem deactivation_frame:
  assumes "ct_inv st" and "get_user_by_telegram_id env tid \<noteq> None"
    and "cid \<in> set (map cfg_id (copy_trade_configs st))"
  shows "snd (process_transaction env' tx (snd (update_copy_trading env tid cid (Some False) sg sb me st)))
           = filter (\<lambda>i. config_id (fst i) \<noteq> cid) (snd (process_transaction env' tx st)) \<and>
         map cfg_id (copy_trade_configs (snd (update_copy_trading env tid cid (Some False) sg sb me st)))
           = map cfg_id (copy_trade_configs st) \<and>
         (\<exists>c \<in> set (copy_trade_configs (snd (update_copy_trading env tid cid (Some False) sg sb me st))).
            cfg_id c = cid \<and> \<not> cfg_active c)"
proof -
  let ?d = "monitored_wallets st"
  let ?st' = "snd (update_copy_trading env tid cid (Some False) sg sb me st)"
  note st' = update_state [OF assms(2,3), of "Some False" sg sb me]
  have dk: "distinct (map fst ?d)" and di: "distinct (all_ids ?d)"
    using assms(1) by (simp_all add: ct_inv_def)
  have all: "\<forall>kv \<in> set ?d. map_of ?d (fst kv) = Some (snd kv)"
    using dk by simp
  have ent: "entries (monitored_wallets ?st') w = filter (\<lambda>uc. config_id uc \<noteq> cid) (entries ?d w)" for w
  proof (cases "w \<in> fst ` set ?d")
    case True
    with update_wallets_deactivate [OF dk di all dk, of cid sg sb me w] show ?thesis
      by (simp add: st')
  next
    case False
    then have "map_of ?d w = None" by (simp add: map_of_eq_None_iff)
    then have "entries ?d w = []" by (simp add: entries_def)
    with False update_wallets_deactivate [OF dk di all dk, of cid sg sb me w] show ?thesis
      by (simp add: st')
  qed
  have pr: "processed_transactions ?st' = processed_transactions st"
    by (simp add: st')
  have "snd (process_transaction env' tx ?st') =
          filter (\<lambda>i. config_id (fst i) \<noteq> cid) (snd (process_transaction env' tx st))"
    unfolding process_intents ent pr
    by (simp add: filter_map comp_def conj_commute)
  moreover have "map cfg_id (copy_trade_configs ?st') = map cfg_id (copy_trade_configs st)"
    by (simp add: st' update_config_ids)
  moreover have "\<exists>c \<in> set (copy_trade_configs ?st'). cfg_id c = cid \<and> \<not> cfg_active c"
    using update_config_deactivated [OF assms(3), of sg sb me] by (simp add: st')
  ultimately show ?thesis by blast
qed

theorem deactivation_frame_witness:
  "ct_inv ex_ct_state \<and> get_user_by_telegram_id ex_env ''u1'' \<noteq> None \<and>
   1 \<in> set (map cfg_id (copy_trade_configs ex_ct_state)) \<and>
   snd (process_transaction ex_env ex_tx
          (snd (update_copy_trading ex_env ''u1'' 1 (Some False) None None None ex_ct_state)))
     = filter (\<lambda>i. config_id (fst i) \<noteq> 1) (snd (process_transaction ex_env ex_tx ex_ct_state)) \<and>
   map cfg_id (copy_trade_configs
       (snd (update_copy_trading ex_env ''u1'' 1 (Some False) None None None ex_ct_state)))
     = map cfg_id (copy_trade_configs ex_ct_state) \<and>
   (\<exists>c \<in> set (copy_trade_configs
               (snd (update_copy_trading ex_env ''u1'' 1 (Some False) None None None ex_ct_state))).
      cfg_id c = 1 \<and> \<not> cfg_active c)"
proof -
  have h1: "ct_inv ex_ct_state"
    by (simp add: ct_inv_def ex_ct_state_def ex_uc_def ex_cfg_def next_config_id_def)
  have h2: "get_user_by_telegram_id ex_env ''u1'' \<noteq> None"
    by (simp add: ex_env_def)
  have h3: "1 \<in> set (map cfg_id (copy_trade_configs ex_ct_state))"
    by (simp add: ex_ct_state_def ex_cfg_def)
  from deactivation_frame [OF h1 h2 h3, of ex_env ex_tx None None None] h1 h2 h3
  show ?thesis by blast
qed

lemma deactivated_entry_gone:
  "snd (process_transaction ex_env ex_tx ex_ct_state) =
     [(ex_uc ''u1'' 1, ''0xabc''), (ex_uc ''u2'' 2, ''0xabc'')] \<and>
   snd (process_transaction ex_env ex_tx
          (snd (update_copy_trading ex_env ''u1'' 1 (Some False) None None None ex_ct_state))) =
     [(ex_uc ''u2'' 2, ''0xabc'')]"
  by (simp add: ex_ct_state_def update_copy_trading_def process_transaction_def can_trade_def
        truthy_str_def ex_env_def ex_user_def ex_tx_def ex_uc_def ex_cfg_def set_row_def Let_def)

subsection \<open>Validation of a new subscription\<close>

lemma tenth: "round_double (1 / 10) = 3602879701896397 / 36028797018963968"
  by (simp add: double_eval)

text \<open>
  Claim C7, as amended. \<open>setup_copy_trading\<close> rejects a target that is not an address with
  \<open>Invalid wallet address\<close> and creates nothing. It does not look at the slippage guard or
  at the amount: for a valid address and a user with a wallet it succeeds with whatever
  values it is given. The two ranges are checked earlier, by the handlers of the setup
  conversation, which ask again and store nothing for a slippage below 0.1 or above 50 and
  for an amount that is not positive.
\<close>

theorem subscribe_validation:
  "(\<not> is_address env target \<longrightarrow>
      setup_copy_trading env tid target sg me sb st = (Inl Invalid_wallet_address, st)) \<and>
   (is_address env target \<and> get_user_by_telegram_id env tid = Some u \<and>
    truthy_str (wallet_address u) \<longrightarrow>
      (\<exists>c. fst (setup_copy_trading env tid target sg me sb st) = Inr c \<and>
           cfg_slippage_guard c = sg \<and> cfg_max_eth_per_trade c = me)) \<and>
   (s < round_double (1 / 10) \<or> 50 < s \<longrightarrow>
      slippage_guard_input (Number s) ud = (SLIPPAGE_GUARD, ud)) \<and>
   (m \<le> 0 \<longrightarrow> max_eth_input (Number m) ud = (MAX_ETH, ud))"
  by (simp add: setup_copy_trading_def create_copy_trade_config_def slippage_guard_input_def
        max_eth_input_def Let_def)

theorem subscribe_validation_witness:
  "\<not> is_address ex_env ''W1'' \<and>
   setup_copy_trading ex_env ''u1'' ''W1'' 5 (1 / 10) True (start_state [])
     = (Inl Invalid_wallet_address, start_state []) \<and>
   is_address ex_env ''0xW1'' \<and> get_user_by_telegram_id ex_env ''u1'' = Some ex_user \<and>
   truthy_str (wallet_address ex_user) \<and>
   (\<exists>c. fst (setup_copy_trading ex_env ''u1'' ''0xW1'' 100 (- 1) True (start_state [])) = Inr c \<and>
        cfg_slippage_guard c = 100 \<and> cfg_max_eth_per_trade c = - 1) \<and>
   (1 / 20 < round_double (1 / 10) \<or> (50 :: rat) < 1 / 20) \<and>
   slippage_guard_input (Number (1 / 20)) \<lparr>mirror_slippage_guard = None, mirror_max_eth = None\<rparr>
     = (SLIPPAGE_GUARD, \<lparr>mirror_slippage_guard = None, mirror_max_eth = None\<rparr>) \<and>
   (0 :: rat) \<le> 0 \<and>
   max_eth_input (Number 0) \<lparr>mirror_slippage_guard = Some 5, mirror_max_eth = None\<rparr>
     = (MAX_ETH, \<lparr>mirror_slippage_guard = Some 5, mirror_max_eth = None\<rparr>)"
proof -
  have h1: "\<not> is_address ex_env ''W1''" by (simp add: ex_env_def)
  have h2: "is_address ex_env ''0xW1'' \<and> get_user_by_telegram_id ex_env ''u1'' = Some ex_user \<and>
            truthy_str (wallet_address ex_user)"
    by (simp add: ex_env_def ex_user_def truthy_str_def)
  have h3: "1 / 20 < round_double (1 / 10) \<or> (50 :: rat) < 1 / 20" by (simp add: tenth)
  have h4: "(0 :: rat) \<le> 0" by simp
  from subscribe_validation
         [of ex_env "''W1''" "''u1''" 5 "1 / 10" True "start_state []" ex_user "1 / 20"
             "\<lparr>mirror_slippage_guard = None, mirror_max_eth = None\<rparr>" 0]
       subscribe_validation
         [of ex_env "''0xW1''" "''u1''" 100 "- 1" True "start_state []" ex_user "1 / 20"
             "\<lparr>mirror_slippage_guard = None, mirror_max_eth = None\<rparr>" 0]
       subscribe_validation
         [of ex_env "''0xW1''" "''u1''" 100 "- 1" True "start_state []" ex_user "1 / 20"
             "\<lparr>mirror_slippage_guard = Some 5, mirror_max_eth = None\<rparr>" 0]
       h1 h2 h3 h4
  show ?thesis by blast
qed

text \<open>
  The claim as the specification words it fails: with the slippage guard 100 and the amount
  -1 the call succeeds and the subscription is in the registry.
\<close>

theorem subscribe_accepts_any_limits:
  "fst (setup_copy_trading ex_env ''u1'' ''0xW1'' 100 (- 1) True (start_state []))
     = Inr \<lparr>cfg_id = 1, cfg_telegram_id = ''u1'', cfg_target_wallet = ''0xW1'',
            cfg_slippage_guard = 100, cfg_active = True, cfg_sandbox_mode = True,
            cfg_max_eth_per_trade = - 1\<rparr> \<and>
   monitored_wallets (snd (setup_copy_trading ex_env ''u1'' ''0xW1'' 100 (- 1) True (start_state [])))
     = [(''0xW1'', [\<lparr>uc_telegram_id = ''u1'', config_id = 1, slippage_guard = 100,
                     max_eth_per_trade = - 1, sandbox_mode = True, active = None\<rparr>])]"
  by (simp add: setup_copy_trading_def create_copy_trade_config_def next_config_id_def
        start_state_def ex_env_def ex_user_def truthy_str_def Let_def)

end
